theory Spec2Isabelle
  imports Complex_Main "HOL-Library.Word" "HOL-Library.Monad_Syntax"
begin

unbundle bit_operations_syntax

section \<open>Shared data model\<close>

text \<open>
  An \<open>ArrayBuffer\<close>, a \<open>Uint8Array\<close> and a \<open>Uint8ClampedArray\<close> are lists of bytes.
  A JavaScript read \<open>arr[i]\<close> of a typed array yields \<open>undefined\<close> outside the array:
  it is modelled by \<open>rd\<close>, which returns \<open>None\<close> there. A write \<open>arr[i] = v\<close> outside
  the array (also at a negative index) is ignored by the engine: it is modelled by
  \<open>store\<close>. Storing \<open>undefined\<close> into a byte array stores 0 (\<open>ToNumber undefined\<close> is
  NaN, and NaN converts to 0); storing a byte stores that byte.
\<close>

type_synonym byte = "8 word"

datatype js_error =
    RangeError
  | InvalidStateError
  | IndexSizeError
  | UnsupportedTGA
  | InvalidBLP
  | UnsupportedBLP
  | NoTempContext
  | NoSourceContext
  | JpegFailed
  | Rejected
  | TypeError

record ImageData =
  width :: nat
  height :: nat
  data :: "byte list"

definition rd :: "byte list \<Rightarrow> nat \<Rightarrow> byte option" where
  "rd arr i = (if i < length arr then Some (arr ! i) else None)"

definition ToUint8 :: "byte option \<Rightarrow> byte" where
  "ToUint8 v = (case v of None \<Rightarrow> 0 | Some b \<Rightarrow> b)"

definition store :: "byte list \<Rightarrow> int \<Rightarrow> byte option \<Rightarrow> byte list" where
  "store arr i v =
     (if 0 \<le> i \<and> i < int (length arr) then arr[nat i := ToUint8 v] else arr)"

text \<open>
  \<open>v & m\<close> on a value read from a typed array: \<open>ToInt32 undefined\<close> is 0.
\<close>

definition js_and :: "byte option \<Rightarrow> byte \<Rightarrow> byte" where
  "js_and v m = (case v of None \<Rightarrow> 0 | Some b \<Rightarrow> b AND m)"

text \<open>
  \<open>DataView.getUint8\<close>, \<open>getUint16\<close> and \<open>getUint32\<close> (little endian) throw a
  RangeError when the bytes they read are not all inside the buffer: \<open>None\<close> here, turned
  into \<open>Inl RangeError\<close> by the caller.
\<close>

definition getUint8 :: "byte list \<Rightarrow> nat \<Rightarrow> nat option" where
  "getUint8 buf i = (if i + 1 \<le> length buf then Some (unat (buf ! i)) else None)"

definition getUint16 :: "byte list \<Rightarrow> nat \<Rightarrow> nat option" where
  "getUint16 buf i =
     (if i + 2 \<le> length buf then Some (unat (buf ! i) + 256 * unat (buf ! (i + 1)))
      else None)"

definition getUint32 :: "byte list \<Rightarrow> nat \<Rightarrow> nat option" where
  "getUint32 buf i =
     (if i + 4 \<le> length buf
      then Some (unat (buf ! i) + 256 * unat (buf ! (i + 1))
                 + 65536 * unat (buf ! (i + 2)) + 16777216 * unat (buf ! (i + 3)))
      else None)"

text \<open>
  The platform's constructor \<open>new ImageData(data, sw, sh)\<close>, after the HTML standard: the
  length of \<open>data\<close> must be a nonzero multiple of 4 (else InvalidStateError), the number
  of pixels a multiple of \<open>sw\<close> (else IndexSizeError; this step throws when \<open>sw\<close> is 0),
  and \<open>sh\<close> the resulting height (else IndexSizeError).
\<close>

definition new_ImageData :: "byte list \<Rightarrow> nat \<Rightarrow> nat \<Rightarrow> js_error + ImageData" where
  "new_ImageData px sw sh =
     (if length px = 0 \<or> length px mod 4 \<noteq> 0 then Inl InvalidStateError
      else if sw = 0 \<or> (length px div 4) mod sw \<noteq> 0 then Inl IndexSizeError
      else if sh \<noteq> (length px div 4) div sw then Inl IndexSizeError
      else Inr \<lparr>width = sw, height = sh, data = px\<rparr>)"

section \<open>TGA codec (src/services/tgaService.ts)\<close>

subsection \<open>TGAConverter.decode\<close>

text \<open>
  The six header reads of \<open>decode\<close>, in the order of the source: idLength, imageType,
  width, height, pixelDepth, descriptor.
\<close>

definition TGA_header :: "byte list \<Rightarrow> (nat \<times> nat \<times> nat \<times> nat \<times> nat \<times> byte) option" where
  "TGA_header buffer = do {
     idLength \<leftarrow> getUint8 buffer 0;
     imageType \<leftarrow> getUint8 buffer 2;
     w \<leftarrow> getUint16 buffer 12;
     h \<leftarrow> getUint16 buffer 14;
     pixelDepth \<leftarrow> getUint8 buffer 16;
     descriptor \<leftarrow> getUint8 buffer 17;
     Some (idLength, imageType, w, h, pixelDepth, of_nat descriptor)
   }"

text \<open>
  \<open>setPixel\<close>: the target index is computed on integers, as JavaScript does; it is
  negative when \<open>index\<close> lies beyond the image and the rows are flipped, and the four
  writes are then ignored.
\<close>

definition setPixel ::
  "byte list \<Rightarrow> nat \<Rightarrow> nat \<Rightarrow> nat \<Rightarrow>
   byte option \<Rightarrow> byte option \<Rightarrow> byte option \<Rightarrow> byte option \<Rightarrow> bool \<Rightarrow> byte list" where
  "setPixel pixels index w h r g b a isBottomToTop =
     (let x = int (index mod w);
          y = int (index div w);
          targetY = (if isBottomToTop then int h - 1 - y else y);
          pixelIdx = (targetY * int w + x) * 4
      in store (store (store (store pixels pixelIdx r) (pixelIdx + 1) g) (pixelIdx + 2) b)
           (pixelIdx + 3) a)"

text \<open>
  The four lines \<open>b = rawData[offset++]; g = ...; r = ...; a = (pixelDepth === 32) ?
  rawData[offset++] : 255\<close>, which the source repeats in its three branches: the values
  read, in the order (b, g, r, a), and the new offset.
\<close>

definition read_bgra ::
  "byte list \<Rightarrow> nat \<Rightarrow> nat \<Rightarrow>
   (byte option \<times> byte option \<times> byte option \<times> byte option) \<times> nat" where
  "read_bgra rawData pixelDepth off =
     (let b = rd rawData off; g = rd rawData (off + 1); r = rd rawData (off + 2)
      in if pixelDepth = 32 then ((b, g, r, rd rawData (off + 3)), off + 4)
         else ((b, g, r, Some 255), off + 3))"

record tga_state =
  pixels :: "byte list"
  offset :: nat
  pixelIndex :: nat

text \<open>The loop of a run-length packet: \<open>count\<close> copies of one pixel.\<close>

primrec rle_run ::
  "nat \<Rightarrow> nat \<Rightarrow> nat \<Rightarrow> byte option \<Rightarrow> byte option \<Rightarrow> byte option \<Rightarrow> byte option \<Rightarrow> bool
   \<Rightarrow> tga_state \<Rightarrow> tga_state" where
  "rle_run 0 w h r g b a isBottomToTop s = s"
| "rle_run (Suc n) w h r g b a isBottomToTop s =
     rle_run n w h r g b a isBottomToTop
       (s\<lparr>pixels := setPixel (pixels s) (pixelIndex s) w h r g b a isBottomToTop,
          pixelIndex := pixelIndex s + 1\<rparr>)"

text \<open>The loop of a raw packet: \<open>count\<close> pixels read one after the other.\<close>

primrec raw_run ::
  "nat \<Rightarrow> byte list \<Rightarrow> nat \<Rightarrow> nat \<Rightarrow> nat \<Rightarrow> bool \<Rightarrow> tga_state \<Rightarrow> tga_state" where
  "raw_run 0 rawData pixelDepth w h isBottomToTop s = s"
| "raw_run (Suc n) rawData pixelDepth w h isBottomToTop s =
     (case read_bgra rawData pixelDepth (offset s) of
        ((b, g, r, a), off') \<Rightarrow>
          raw_run n rawData pixelDepth w h isBottomToTop
            (s\<lparr>pixels := setPixel (pixels s) (pixelIndex s) w h r g b a isBottomToTop,
               offset := off',
               pixelIndex := pixelIndex s + 1\<rparr>))"

text \<open>One iteration of the \<open>while (pixelIndex < totalPixels)\<close> loop.\<close>

definition decode_step ::
  "nat \<Rightarrow> nat \<Rightarrow> nat \<Rightarrow> nat \<Rightarrow> bool \<Rightarrow> byte list \<Rightarrow> tga_state \<Rightarrow> tga_state" where
  "decode_step imageType pixelDepth w h isBottomToTop rawData s =
     (if imageType = 10 then
        (let packetHeader = rd rawData (offset s);
             s1 = s\<lparr>offset := offset s + 1\<rparr>;
             count = unat (js_and packetHeader 0x7F) + 1;
             isRLE = (js_and packetHeader 0x80 \<noteq> 0)
         in if isRLE then
              (case read_bgra rawData pixelDepth (offset s1) of
                 ((b, g, r, a), off') \<Rightarrow>
                   rle_run count w h r g b a isBottomToTop (s1\<lparr>offset := off'\<rparr>))
            else raw_run count rawData pixelDepth w h isBottomToTop s1)
      else
        (case read_bgra rawData pixelDepth (offset s) of
           ((b, g, r, a), off') \<Rightarrow>
             s\<lparr>pixels := setPixel (pixels s) (pixelIndex s) w h r g b a isBottomToTop,
               offset := off',
               pixelIndex := pixelIndex s + 1\<rparr>))"

lemma rle_run_pixelIndex:
  "pixelIndex (rle_run n w h r g b a btt s) = pixelIndex s + n"
  by (induction n arbitrary: s) simp_all

lemma raw_run_pixelIndex:
  "pixelIndex (raw_run n rawData pixelDepth w h btt s) = pixelIndex s + n"
  by (induction n arbitrary: s) (simp_all split: prod.splits)

lemma decode_step_pixelIndex:
  "pixelIndex s < pixelIndex (decode_step imageType pixelDepth w h btt rawData s)"
  by (simp add: decode_step_def Let_def rle_run_pixelIndex raw_run_pixelIndex
      split: prod.splits)

function decode_loop ::
  "nat \<Rightarrow> nat \<Rightarrow> nat \<Rightarrow> nat \<Rightarrow> bool \<Rightarrow> byte list \<Rightarrow> nat \<Rightarrow> tga_state \<Rightarrow> tga_state" where
  "decode_loop imageType pixelDepth w h isBottomToTop rawData totalPixels s =
     (if pixelIndex s < totalPixels
      then decode_loop imageType pixelDepth w h isBottomToTop rawData totalPixels
             (decode_step imageType pixelDepth w h isBottomToTop rawData s)
      else s)"
  by pat_completeness auto
termination
proof (relation "measure (\<lambda>(imageType, pixelDepth, w, h, btt, rawData, totalPixels, s).
                            totalPixels - pixelIndex s)")
  show "wf (measure (\<lambda>(imageType, pixelDepth, w, h, btt, rawData, totalPixels, s).
                            totalPixels - pixelIndex s))"
    by simp
next
  fix imageType pixelDepth w h :: nat and isBottomToTop :: bool
    and rawData :: "byte list" and totalPixels :: nat and s :: tga_state
  assume "pixelIndex s < totalPixels"
  moreover have "pixelIndex s < pixelIndex (decode_step imageType pixelDepth w h isBottomToTop rawData s)"
    by (rule decode_step_pixelIndex)
  ultimately show
    "((imageType, pixelDepth, w, h, isBottomToTop, rawData, totalPixels,
       decode_step imageType pixelDepth w h isBottomToTop rawData s),
      (imageType, pixelDepth, w, h, isBottomToTop, rawData, totalPixels, s))
     \<in> measure (\<lambda>(imageType, pixelDepth, w, h, btt, rawData, totalPixels, s).
                            totalPixels - pixelIndex s)"
    by simp
qed

declare decode_loop.simps [simp del]

text \<open>
  \<open>decode\<close>. The errors in the order of the source: a header read outside the buffer
  (RangeError), an image type other than 2 and 10, \<open>new Uint8Array(buffer, dataStart)\<close> with
  \<open>dataStart\<close> beyond the buffer (RangeError), and at last the checks of the ImageData
  constructor. Allocation failure for very large images is not modelled.
\<close>

definition TGAConverter_decode :: "byte list \<Rightarrow> js_error + ImageData" where
  "TGAConverter_decode buffer =
     (case TGA_header buffer of
        None \<Rightarrow> Inl RangeError
      | Some (idLength, imageType, w, h, pixelDepth, descriptor) \<Rightarrow>
          if imageType \<noteq> 2 \<and> imageType \<noteq> 10 then Inl UnsupportedTGA
          else
            (let isBottomToTop = (descriptor AND 0x20 = 0);
                 dataStart = 18 + idLength;
                 pixels0 = replicate (w * h * 4) (0 :: byte)
             in if length buffer < dataStart then Inl RangeError
                else
                  (let rawData = drop dataStart buffer;
                       totalPixels = w * h;
                       s = decode_loop imageType pixelDepth w h isBottomToTop rawData totalPixels
                             \<lparr>pixels = pixels0, offset = 0, pixelIndex = 0\<rparr>
                   in new_ImageData (pixels s) w h)))"

text \<open>
  The packet stream of a buffer is truncated when the decoding loop reads beyond the last
  byte of the pixel data: the offset it reaches is larger than the number of bytes that
  follow the header and the ID block. (The offsets read are consecutive from 0, so this
  says that some read fell outside the data.)
\<close>

definition TGA_stream_truncated :: "byte list \<Rightarrow> bool" where
  "TGA_stream_truncated buffer =
     (case TGA_header buffer of
        None \<Rightarrow> False
      | Some (idLength, imageType, w, h, pixelDepth, descriptor) \<Rightarrow>
          18 + idLength \<le> length buffer \<and>
          length buffer - (18 + idLength)
            < offset (decode_loop imageType pixelDepth w h (descriptor AND 0x20 = 0)
                        (drop (18 + idLength) buffer) (w * h)
                        \<lparr>pixels = replicate (w * h * 4) 0, offset = 0, pixelIndex = 0\<rparr>))"

subsection \<open>TGAConverter.encode\<close>

text \<open>
  \<open>DataView.setUint8\<close> and \<open>setUint16\<close> (little endian) at offsets inside the buffer,
  which the 18 bytes of the header always are. \<open>setUint16\<close> keeps the low 16 bits of the
  value.
\<close>

definition setUint8 :: "byte list \<Rightarrow> nat \<Rightarrow> nat \<Rightarrow> byte list" where
  "setUint8 buf i v = buf[i := of_nat v]"

definition setUint16 :: "byte list \<Rightarrow> nat \<Rightarrow> nat \<Rightarrow> byte list" where
  "setUint16 buf i v = buf[i := of_nat (v mod 256), i + 1 := of_nat ((v div 256) mod 256)]"

text \<open>
  The body of the inner loop: the four writes \<open>output[offset++] = data[idx + k]\<close> of the
  pixel at column \<open>x\<close> of row \<open>y\<close>. The state is the output array with the offset.
\<close>

definition encode_pixel ::
  "byte list \<Rightarrow> nat \<Rightarrow> nat \<Rightarrow> nat \<Rightarrow> byte list \<times> nat \<Rightarrow> byte list \<times> nat" where
  "encode_pixel dat w y x st =
     (case st of (output, off) \<Rightarrow>
        (let idx = (y * w + x) * 4;
             o1 = store output (int off) (rd dat (idx + 2));
             o2 = store o1 (int off + 1) (rd dat (idx + 1));
             o3 = store o2 (int off + 2) (rd dat (idx + 0));
             o4 = store o3 (int off + 3) (rd dat (idx + 3))
         in (o4, off + 4)))"

text \<open>
  \<open>for (let y = height - 1; y >= 0; y--) for (let x = 0; x < width; x++)\<close>: the rows from
  the last to the first, the columns from the first to the last.
\<close>

definition encode_rows :: "byte list \<Rightarrow> nat \<Rightarrow> nat \<Rightarrow> byte list \<times> nat \<Rightarrow> byte list \<times> nat" where
  "encode_rows dat w h st =
     fold (\<lambda>y st'. fold (\<lambda>x st''. encode_pixel dat w y x st'') [0..<w] st') (rev [0..<h]) st"

definition TGAConverter_encode :: "ImageData \<Rightarrow> byte list" where
  "TGAConverter_encode imageData =
     (let w = width imageData; h = height imageData; dat = data imageData;
          headerSize = 18;
          pixelDataSize = w * h * 4;
          buffer = replicate (headerSize + pixelDataSize) (0 :: byte);
          v1 = setUint8 buffer 2 2;
          v2 = setUint16 v1 12 w;
          v3 = setUint16 v2 14 h;
          v4 = setUint8 v3 16 32;
          v5 = setUint8 v4 17 8
      in fst (encode_rows dat w h (v5, headerSize)))"

section \<open>BLP codec (src/services/blpService.ts)\<close>

text \<open>
  The JPEG codec is the browser's: \<open>imageToImageData\<close> (an \<open>Image\<close> element drawn on a
  canvas) and \<open>canvas.toBlob\<close> are parameters of the model. A rejected promise and a
  thrown error are both \<open>Inl\<close>.
\<close>

subsection \<open>swapRBChannels\<close>

text \<open>
  \<open>for (let i = 0; i < data.length; i += 4) { r = data[i]; data[i] = data[i + 2];
  data[i + 2] = r }\<close> on the \<open>Uint8ClampedArray\<close> of the image.
\<close>

function swapRB_loop :: "nat \<Rightarrow> byte list \<Rightarrow> byte list" where
  "swapRB_loop i dat =
     (if i < length dat
      then (let r = rd dat i;
                d1 = store dat (int i) (rd dat (i + 2));
                d2 = store d1 (int i + 2) r
            in swapRB_loop (i + 4) d2)
      else dat)"
  by pat_completeness auto
termination
  by (relation "measure (\<lambda>(i, dat). length dat - i)") (auto simp: store_def)

declare swapRB_loop.simps [simp del]

definition swapRBChannels :: "ImageData \<Rightarrow> ImageData" where
  "swapRBChannels imageData = imageData\<lparr>data := swapRB_loop 0 (data imageData)\<rparr>"

subsection \<open>BLPConverter.decode\<close>

text \<open>
  \<open>new Uint8Array(buffer, byteOffset, length)\<close>: a RangeError (\<open>None\<close>) unless the view
  lies inside the buffer.
\<close>

definition new_Uint8Array :: "byte list \<Rightarrow> nat \<Rightarrow> nat \<Rightarrow> byte list option" where
  "new_Uint8Array buffer byteOffset n =
     (if byteOffset + n \<le> length buffer then Some (take n (drop byteOffset buffer)) else None)"

text \<open>The four character codes of the magic, as \<open>String.fromCharCode\<close> receives them.\<close>

definition BLP_magic :: "byte list \<Rightarrow> nat list option" where
  "BLP_magic buffer = do {
     m0 \<leftarrow> getUint8 buffer 0;
     m1 \<leftarrow> getUint8 buffer 1;
     m2 \<leftarrow> getUint8 buffer 2;
     m3 \<leftarrow> getUint8 buffer 3;
     Some [m0, m1, m2, m3]
   }"

text \<open>The five header reads that follow the check of the magic: type, width, height,
  offset and size of the first mip level (\<open>sz\<close> is the source's \<open>size\<close>).\<close>

definition BLP_fields :: "byte list \<Rightarrow> (nat \<times> nat \<times> nat \<times> nat \<times> nat) option" where
  "BLP_fields buffer = do {
     type \<leftarrow> getUint32 buffer 4;
     w \<leftarrow> getUint32 buffer 12;
     h \<leftarrow> getUint32 buffer 16;
     off \<leftarrow> getUint32 buffer 28;
     sz \<leftarrow> getUint32 buffer 92;
     Some (type, w, h, off, sz)
   }"

text \<open>
  The JPEG stream of a type 0 container: the shared header at offset 160 followed by the
  payload when \<open>jpegHeaderSize > 0\<close>, the payload alone otherwise.
\<close>

definition BLP_fullJpeg :: "byte list \<Rightarrow> nat \<Rightarrow> nat \<Rightarrow> byte list option" where
  "BLP_fullJpeg buffer off sz = do {
     jpegHeaderSize \<leftarrow> getUint32 buffer 156;
     if jpegHeaderSize > 0 then do {
       headerData \<leftarrow> new_Uint8Array buffer 160 jpegHeaderSize;
       imageDataPart \<leftarrow> new_Uint8Array buffer off sz;
       Some (headerData @ imageDataPart)
     } else new_Uint8Array buffer off sz
   }"

definition BLPConverter_decode ::
  "(byte list \<Rightarrow> js_error + ImageData) \<Rightarrow> byte list \<Rightarrow> js_error + ImageData" where
  "BLPConverter_decode imageToImageData buffer =
     (case BLP_magic buffer of
        None \<Rightarrow> Inl RangeError
      | Some magic \<Rightarrow>
          if magic \<noteq> map of_char ''BLP1'' \<and> magic \<noteq> map of_char ''BLP2'' then Inl InvalidBLP
          else
            (case BLP_fields buffer of
               None \<Rightarrow> Inl RangeError
             | Some (type, w, h, off, sz) \<Rightarrow>
                 if type = 0 then
                   (case BLP_fullJpeg buffer off sz of
                      None \<Rightarrow> Inl RangeError
                    | Some fullJpeg \<Rightarrow>
                        (case imageToImageData fullJpeg of
                           Inl e \<Rightarrow> Inl e
                         | Inr imageData \<Rightarrow> Inr (swapRBChannels imageData)))
                 else Inl UnsupportedBLP))"

text \<open>
  The other copy of the decoder in the repository (src/unnamed/part_002), which the
  application does not import: it always builds the shared header view and swaps the
  channels only when the magic is BLP1.
\<close>

definition BLPConverter_decode_part_002 ::
  "(byte list \<Rightarrow> js_error + ImageData) \<Rightarrow> byte list \<Rightarrow> js_error + ImageData" where
  "BLPConverter_decode_part_002 imageToImageData buffer =
     (case BLP_magic buffer of
        None \<Rightarrow> Inl RangeError
      | Some magic \<Rightarrow>
          if magic \<noteq> map of_char ''BLP1'' \<and> magic \<noteq> map of_char ''BLP2'' then Inl InvalidBLP
          else
            (case BLP_fields buffer of
               None \<Rightarrow> Inl RangeError
             | Some (type, w, h, off, sz) \<Rightarrow>
                 if type = 0 then
                   (case do {
                           jpegHeaderSize \<leftarrow> getUint32 buffer 156;
                           headerData \<leftarrow> new_Uint8Array buffer 160 jpegHeaderSize;
                           imageDataPart \<leftarrow> new_Uint8Array buffer off sz;
                           Some (headerData @ imageDataPart)
                         } of
                      None \<Rightarrow> Inl RangeError
                    | Some fullJpeg \<Rightarrow>
                        (case imageToImageData fullJpeg of
                           Inl e \<Rightarrow> Inl e
                         | Inr imageData \<Rightarrow>
                             if magic = map of_char ''BLP1'' then Inr (swapRBChannels imageData)
                             else Inr imageData))
                 else Inl UnsupportedBLP))"

subsection \<open>BLPConverter.encode\<close>

text \<open>
  The source canvas: its width and height, and what \<open>getContext('2d')\<close> gives: \<open>None\<close>
  for null, or the RGBA bytes that \<open>getImageData(0, 0, width, height)\<close> returns.
  \<open>getImageData\<close> throws an IndexSizeError when the width or the height is 0.
\<close>

record canvas =
  canvas_width :: nat
  canvas_height :: nat
  canvas_context :: "byte list option"

definition getImageData :: "byte list \<Rightarrow> nat \<Rightarrow> nat \<Rightarrow> js_error + ImageData" where
  "getImageData bitmap sw sh =
     (if sw = 0 \<or> sh = 0 then Inl IndexSizeError
      else Inr \<lparr>width = sw, height = sh, data = bitmap\<rparr>)"

text \<open>\<open>DataView.setUint32\<close> (little endian) keeps the low 32 bits of the value.\<close>

definition setUint32 :: "byte list \<Rightarrow> nat \<Rightarrow> nat \<Rightarrow> byte list" where
  "setUint32 buf i v =
     buf[i := of_nat (v mod 256),
         i + 1 := of_nat ((v div 256) mod 256),
         i + 2 := of_nat ((v div 65536) mod 256),
         i + 3 := of_nat ((v div 16777216) mod 256)]"

text \<open>The header that \<open>encode\<close> builds in its \<open>ArrayBuffer\<close> of 156 + 4 bytes.\<close>

definition BLP_encode_header :: "nat \<Rightarrow> nat \<Rightarrow> nat \<Rightarrow> byte list" where
  "BLP_encode_header w h jpegLength =
     (let headerSize = 156;
          header = replicate (headerSize + 4) (0 :: byte);
          v1 = setUint8 header 0 (of_char (CHR ''B''));
          v2 = setUint8 v1 1 (of_char (CHR ''L''));
          v3 = setUint8 v2 2 (of_char (CHR ''P''));
          v4 = setUint8 v3 3 (of_char (CHR ''1''));
          v5 = setUint32 v4 4 0;
          v6 = setUint32 v5 8 8;
          v7 = setUint32 v6 12 w;
          v8 = setUint32 v7 16 h;
          v9 = setUint32 v8 20 5;
          v10 = setUint32 v9 24 1;
          firstMipOffset = 160;
          v11 = setUint32 v10 28 firstMipOffset;
          v12 = fold (\<lambda>i v. setUint32 v (28 + i * 4) 0) [1..<16] v11;
          v13 = setUint32 v12 92 jpegLength;
          v14 = fold (\<lambda>i v. setUint32 v (92 + i * 4) 0) [1..<16] v13;
          v15 = setUint32 v14 156 0
      in v15)"

text \<open>
  \<open>encode\<close>. \<open>tempCtx\<close> says whether the temporary canvas gives a 2d context; \<open>toBlob\<close>
  is the JPEG encoder of the temporary canvas after \<open>putImageData\<close>, with the quality
  factor (\<open>None\<close> for a null blob). The final buffer is the header with the JPEG bytes
  set at \<open>header.byteLength\<close>.
\<close>

definition BLPConverter_encode ::
  "bool \<Rightarrow> (ImageData \<Rightarrow> 'q \<Rightarrow> byte list option) \<Rightarrow> canvas \<Rightarrow> 'q \<Rightarrow> js_error + byte list" where
  "BLPConverter_encode tempCtx toBlob cv quality =
     (let w = canvas_width cv; h = canvas_height cv
      in if \<not> tempCtx then Inl NoTempContext
         else
           (case canvas_context cv of
              None \<Rightarrow> Inl NoSourceContext
            | Some bitmap \<Rightarrow>
                (case getImageData bitmap w h of
                   Inl e \<Rightarrow> Inl e
                 | Inr idata \<Rightarrow>
                     (case toBlob (swapRBChannels idata) quality of
                        None \<Rightarrow> Inl JpegFailed
                      | Some jpegData \<Rightarrow>
                          Inr (BLP_encode_header w h (length jpegData) @ jpegData)))))"

section \<open>Channel formulas (src/services/imageProcessor.ts)\<close>

subsection \<open>JavaScript values and numbers\<close>

text \<open>
  A JavaScript number is NaN, an infinity or a finite value; the finite doubles are taken
  as reals (every statement below holds for all reals, hence for the doubles). A value is
  \<open>undefined\<close>, \<open>null\<close>, a boolean, a number, a BigInt, a string, a symbol or an object
  (a function is an object); a symbol and an object are given by an identity that the
  engine interprets.
\<close>

datatype jsnum = NaN | NegInf | Finite real | PosInf

datatype jsval =
    Undefined
  | Null
  | Boolean bool
  | Number jsnum
  | BigInt int
  | String string
  | Symbol nat
  | Object nat

text \<open>
  The built-in \<open>Math.max\<close> and \<open>Math.min\<close> on two numbers: NaN when an argument is NaN.
\<close>

fun builtin_max :: "jsnum \<Rightarrow> jsnum \<Rightarrow> jsnum" where
  "builtin_max NaN y = NaN"
| "builtin_max x NaN = NaN"
| "builtin_max PosInf y = PosInf"
| "builtin_max x PosInf = PosInf"
| "builtin_max NegInf y = y"
| "builtin_max x NegInf = x"
| "builtin_max (Finite x) (Finite y) = Finite (max x y)"

fun builtin_min :: "jsnum \<Rightarrow> jsnum \<Rightarrow> jsnum" where
  "builtin_min NaN y = NaN"
| "builtin_min x NaN = NaN"
| "builtin_min NegInf y = NegInf"
| "builtin_min x NegInf = NegInf"
| "builtin_min PosInf y = y"
| "builtin_min x PosInf = x"
| "builtin_min (Finite x) (Finite y) = Finite (min x y)"

text \<open>
  The conversion of a number stored into a \<open>Uint8ClampedArray\<close> (ECMAScript
  \<open>ToUint8Clamp\<close>): NaN gives 0, the value is clamped to 0 and 255 and rounded to the
  nearest integer, a tie to the even one.
\<close>

definition ToUint8Clamp :: "jsnum \<Rightarrow> byte" where
  "ToUint8Clamp n =
     (case n of
        NaN \<Rightarrow> 0
      | NegInf \<Rightarrow> 0
      | PosInf \<Rightarrow> 255
      | Finite x \<Rightarrow>
          if x \<le> 0 then 0
          else if 255 \<le> x then 255
          else (let f = \<lfloor>x\<rfloor>
                in if of_int f + 1 / 2 < x then of_int (f + 1)
                   else if x < of_int f + 1 / 2 then of_int f
                   else if even f then of_int f
                   else of_int (f + 1)))"

subsection \<open>The state of the engine\<close>

text \<open>
  The text of a formula is JavaScript source, and \<open>new Function\<close> puts no restriction on
  it: it runs with the global object in scope. So the evaluation of an expression is a
  step of the engine's state, which is made explicit here as far as \<open>applyFormulas\<close>
  depends on it:
  \<^item> the typed arrays reachable from the program (an address is an index in \<open>arrays\<close>);
  \<^item> the \<open>Math\<close> object as the scope of \<open>applyFormulas\<close> sees it: the object itself (it is
    the fifth argument of every call of the compiled function), what its properties
    \<open>max\<close> and \<open>min\<close> hold (the built-in function, or a value stored there since), and
    its other properties by name;
  \<^item> everything else (the other globals, the objects), of a type left open.

  The rest of the platform that \<open>applyFormulas\<close> relies on (the constructors of
  \<open>Uint8ClampedArray\<close> and \<open>ImageData\<close>, the iteration of the array that the compiled
  function returns) is taken as the platform defines it.
\<close>

datatype fnref = Builtin | Replaced jsval

record math_ns =
  Math_object :: jsval
  Math_max :: fnref
  Math_min :: fnref
  Math_other :: "string \<Rightarrow> jsval"

record 'x world =
  arrays :: "byte list list"
  Math :: math_ns
  outside :: 'x

text \<open>
  An exception is given by what the handler of \<open>applyFormulas\<close> makes of the thrown value
  \<open>err\<close>: \<open>Message m\<close> when \<open>err.message\<close> is \<open>m\<close> (\<open>None\<close>: it is \<open>undefined\<close>), and
  \<open>Nullish\<close> for a thrown \<open>null\<close> or \<open>undefined\<close>, on which reading \<open>err.message\<close> throws a
  TypeError in turn.
\<close>

datatype thrown = Message "string option" | Nullish

datatype outcome = Throws thrown | Value jsval

text \<open>
  The variables of the generated function (its parameters r, g, b, a and Math, which an
  expression can assign, and its constants nr, ng, nb once they are initialised), and the
  evaluation of an expression: from the variables and the state to the outcome, the
  variables and the state after it.
\<close>

type_synonym env = "string \<Rightarrow> jsval option"

type_synonym 'x gexpr = "env \<Rightarrow> 'x world \<Rightarrow> outcome \<times> env \<times> 'x world"

text \<open>
  The engine is a parameter of the model:
  \<^item> \<open>parseExpr\<close>: for the text of an expression, the message of the SyntaxError or its
    evaluation;
  \<^item> \<open>call\<close>: the call of a value with a list of arguments (a TypeError when the value is
    not a function);
  \<^item> \<open>ToPrimitive\<close>: the conversion of an object to a primitive value, which runs the
    object's \<open>valueOf\<close> or \<open>toString\<close>;
  \<^item> \<open>StringToNumber\<close>: the number a string denotes;
  \<^item> \<open>TypeError_message\<close>: the message of the TypeError that the conversion to a number
    throws for a BigInt or a symbol.
\<close>

record 'x engine =
  parseExpr :: "string \<Rightarrow> string + 'x gexpr"
  call :: "jsval \<Rightarrow> jsval list \<Rightarrow> 'x world \<Rightarrow> outcome \<times> 'x world"
  ToPrimitive :: "nat \<Rightarrow> 'x world \<Rightarrow> outcome \<times> 'x world"
  StringToNumber :: "string \<Rightarrow> jsnum"
  TypeError_message :: "jsval \<Rightarrow> string"

text \<open>
  ECMAScript \<open>ToNumber\<close>: on a primitive value it runs no code of the program; an object
  is converted to a primitive value first.
\<close>

definition ToNumber_primitive :: "'x engine \<Rightarrow> jsval \<Rightarrow> thrown + jsnum" where
  "ToNumber_primitive eng v =
     (case v of
        Undefined \<Rightarrow> Inr NaN
      | Null \<Rightarrow> Inr (Finite 0)
      | Boolean b \<Rightarrow> Inr (Finite (if b then 1 else 0))
      | Number n \<Rightarrow> Inr n
      | BigInt i \<Rightarrow> Inl (Message (Some (TypeError_message eng v)))
      | String s \<Rightarrow> Inr (StringToNumber eng s)
      | Symbol n \<Rightarrow> Inl (Message (Some (TypeError_message eng v)))
      | Object n \<Rightarrow> Inl (Message (Some (TypeError_message eng v))))"

definition ToNumber :: "'x engine \<Rightarrow> jsval \<Rightarrow> 'x world \<Rightarrow> (thrown + jsnum) \<times> 'x world" where
  "ToNumber eng v w =
     (case v of
        Object n \<Rightarrow>
          (case ToPrimitive eng n w of
             (Throws t, w') \<Rightarrow> (Inl t, w')
           | (Value p, w') \<Rightarrow> (ToNumber_primitive eng p, w'))
      | _ \<Rightarrow> (ToNumber_primitive eng v, w))"

text \<open>
  The call of what \<open>Math.max\<close> or \<open>Math.min\<close> holds, with two arguments: the built-in
  converts its arguments from left to right and compares them; a value stored in the
  property since is called by the engine.
\<close>

definition builtin_call ::
  "'x engine \<Rightarrow> (jsnum \<Rightarrow> jsnum \<Rightarrow> jsnum) \<Rightarrow> jsval \<Rightarrow> jsval \<Rightarrow> 'x world \<Rightarrow> outcome \<times> 'x world" where
  "builtin_call eng f x y w =
     (case ToNumber eng x w of
        (Inl t, w1) \<Rightarrow> (Throws t, w1)
      | (Inr m, w1) \<Rightarrow>
          (case ToNumber eng y w1 of
             (Inl t, w2) \<Rightarrow> (Throws t, w2)
           | (Inr n, w2) \<Rightarrow> (Value (Number (f m n)), w2)))"

definition call_math ::
  "'x engine \<Rightarrow> fnref \<Rightarrow> (jsnum \<Rightarrow> jsnum \<Rightarrow> jsnum) \<Rightarrow> jsval \<Rightarrow> jsval \<Rightarrow> 'x world
   \<Rightarrow> outcome \<times> 'x world" where
  "call_math eng fn builtin x y w =
     (case fn of
        Builtin \<Rightarrow> builtin_call eng builtin x y w
      | Replaced f \<Rightarrow> call eng f [x, y] w)"

subsection \<open>The compiled transform\<close>

record ChannelFormulas =
  formulas_r :: string
  formulas_g :: string
  formulas_b :: string
  formulas_a :: string

text \<open>
  The variables at the entry of the generated function
  \<open>new Function('r', 'g', 'b', 'a', 'Math', ...)\<close>, and the value of a variable.
\<close>

definition params :: "jsval \<Rightarrow> jsval \<Rightarrow> jsval \<Rightarrow> jsval \<Rightarrow> jsval \<Rightarrow> env" where
  "params r g b a m = [''r'' \<mapsto> r, ''g'' \<mapsto> g, ''b'' \<mapsto> b, ''a'' \<mapsto> a, ''Math'' \<mapsto> m]"

definition variable :: "env \<Rightarrow> string \<Rightarrow> jsval" where
  "variable env x = (case env x of None \<Rightarrow> Undefined | Some v \<Rightarrow> v)"

text \<open>
  The \<open>try\<close> block of the generated function: \<open>const nr = ...; const ng = ...; const nb =
  ...; const na = ...; return [nr, ng, nb, na]\<close>. Each expression is evaluated with the
  variables and in the state that the one before it has left, and each constant is in
  scope of the expressions after it. The result is \<open>None\<close> when an expression throws; the
  variables and the state are then those at the exception.
\<close>

definition try_block ::
  "'x gexpr \<Rightarrow> 'x gexpr \<Rightarrow> 'x gexpr \<Rightarrow> 'x gexpr \<Rightarrow> env \<Rightarrow> 'x world
   \<Rightarrow> (jsval \<times> jsval \<times> jsval \<times> jsval) option \<times> env \<times> 'x world" where
  "try_block er eg eb ea env0 w0 =
     (case er env0 w0 of
        (Throws t, env1, w1) \<Rightarrow> (None, env1, w1)
      | (Value nr, env1, w1) \<Rightarrow>
          (case eg (env1(''nr'' \<mapsto> nr)) w1 of
             (Throws t, env2, w2) \<Rightarrow> (None, env2, w2)
           | (Value ng, env2, w2) \<Rightarrow>
               (case eb (env2(''ng'' \<mapsto> ng)) w2 of
                  (Throws t, env3, w3) \<Rightarrow> (None, env3, w3)
                | (Value nb, env3, w3) \<Rightarrow>
                    (case ea (env3(''nb'' \<mapsto> nb)) w3 of
                       (Throws t, env4, w4) \<Rightarrow> (None, env4, w4)
                     | (Value na, env4, w4) \<Rightarrow> (Some (nr, ng, nb, na), env4, w4)))))"

text \<open>
  The generated function, called with the five arguments in the state \<open>w\<close>: the \<open>try\<close>
  block, and \<open>catch(e) { return [r, g, b, a] }\<close>, which returns what the parameters hold
  when the exception is caught. The result is the returned array with the state after
  the call.
\<close>

definition compiledShader ::
  "'x gexpr \<Rightarrow> 'x gexpr \<Rightarrow> 'x gexpr \<Rightarrow> 'x gexpr
   \<Rightarrow> jsval \<Rightarrow> jsval \<Rightarrow> jsval \<Rightarrow> jsval \<Rightarrow> jsval \<Rightarrow> 'x world
   \<Rightarrow> (jsval \<times> jsval \<times> jsval \<times> jsval) \<times> 'x world" where
  "compiledShader er eg eb ea r g b a m w =
     (case try_block er eg eb ea (params r g b a m) w of
        (Some out, env', w') \<Rightarrow> (out, w')
      | (None, env', w') \<Rightarrow>
          ((variable env' ''r'', variable env' ''g'', variable env' ''b'', variable env' ''a''),
           w'))"

text \<open>
  \<open>new Function(...)\<close> with the four texts \<open>formulas.c || 'c'\<close>: the message of the
  SyntaxError, or the four compiled expressions (of whatever type the engine gives them).
\<close>

definition formula_text :: "string \<Rightarrow> string \<Rightarrow> string" where
  "formula_text f dflt = (if f = [] then dflt else f)"

definition compile ::
  "(string \<Rightarrow> string + 'e) \<Rightarrow> ChannelFormulas \<Rightarrow> string + ('e \<times> 'e \<times> 'e \<times> 'e)" where
  "compile parse formulas =
     (case parse (formula_text (formulas_r formulas) ''r'') of
        Inl msg \<Rightarrow> Inl msg
      | Inr er \<Rightarrow>
          (case parse (formula_text (formulas_g formulas) ''g'') of
             Inl msg \<Rightarrow> Inl msg
           | Inr eg \<Rightarrow>
               (case parse (formula_text (formulas_b formulas) ''b'') of
                  Inl msg \<Rightarrow> Inl msg
                | Inr eb \<Rightarrow>
                    (case parse (formula_text (formulas_a formulas) ''a'') of
                       Inl msg \<Rightarrow> Inl msg
                     | Inr ea \<Rightarrow> Inr (er, eg, eb, ea)))))"

subsection \<open>ImageProcessor.applyFormulas\<close>

text \<open>
  An ImageData object holds its width, its height (both read-only in the platform) and
  the address of its array. The result of \<open>applyFormulas\<close> is the object \<open>{ data, error }\<close>;
  \<open>error\<close> is \<open>None\<close> when the property is absent or \<open>undefined\<close>.
\<close>

record ImageData_ref =
  ref_width :: nat
  ref_height :: nat
  ref_data :: nat

record apply_result =
  result_data :: ImageData_ref
  result_error :: "string option"

text \<open>
  \<open>data[i]\<close> as a JavaScript value, and the assignment \<open>data[i] = v\<close> on the clamped
  array: the value is converted to a number, and the number is stored when the index
  is inside the array.
\<close>

definition rdv :: "byte list \<Rightarrow> nat \<Rightarrow> jsval" where
  "rdv arr i = (case rd arr i of None \<Rightarrow> Undefined | Some b \<Rightarrow> Number (Finite (real (unat b))))"

definition assign ::
  "'x engine \<Rightarrow> byte list \<Rightarrow> nat \<Rightarrow> jsval \<Rightarrow> 'x world \<Rightarrow> (thrown + byte list) \<times> 'x world" where
  "assign eng dat i v w =
     (case ToNumber eng v w of
        (Inl t, w') \<Rightarrow> (Inl t, w')
      | (Inr n, w') \<Rightarrow> (Inr (if i < length dat then dat[i := ToUint8Clamp n] else dat), w'))"

text \<open>
  The statement \<open>data[i] = Math.min(255, Math.max(0, v))\<close>. A call reads its function
  before it evaluates its arguments: \<open>Math.min\<close> and then \<open>Math.max\<close> are read in the state
  before the inner call; the inner call, the outer call and the assignment follow.
\<close>

definition clamp_assign ::
  "'x engine \<Rightarrow> byte list \<Rightarrow> nat \<Rightarrow> jsval \<Rightarrow> 'x world \<Rightarrow> (thrown + byte list) \<times> 'x world" where
  "clamp_assign eng dat i v w =
     (let min_fn = Math_min (Math w);
          max_fn = Math_max (Math w)
      in case call_math eng max_fn builtin_max (Number (Finite 0)) v w of
           (Throws t, w1) \<Rightarrow> (Inl t, w1)
         | (Value m, w1) \<Rightarrow>
             (case call_math eng min_fn builtin_min (Number (Finite 255)) m w1 of
                (Throws t, w2) \<Rightarrow> (Inl t, w2)
              | (Value n, w2) \<Rightarrow> assign eng dat i n w2))"

text \<open>
  The body of the loop for the pixel at index \<open>i\<close>: the four reads, the call of the
  compiled function with the \<open>Math\<close> object, and the four clamped assignments in their
  order. The array \<open>data\<close> is the copy that \<open>applyFormulas\<close> has made: only its local
  variables refer to it, so it is kept apart from the state that the formulas reach. An
  exception leaves the loop for the outer \<open>catch\<close>, with the assignments made so far.
\<close>

definition apply_pixel ::
  "'x engine
   \<Rightarrow> (jsval \<Rightarrow> jsval \<Rightarrow> jsval \<Rightarrow> jsval \<Rightarrow> jsval \<Rightarrow> 'x world
        \<Rightarrow> (jsval \<times> jsval \<times> jsval \<times> jsval) \<times> 'x world)
   \<Rightarrow> nat \<Rightarrow> byte list \<Rightarrow> 'x world \<Rightarrow> byte list \<times> 'x world \<times> thrown option" where
  "apply_pixel eng shader i dat w =
     (let r = rdv dat i; g = rdv dat (i + 1); b = rdv dat (i + 2); a = rdv dat (i + 3)
      in case shader r g b a (Math_object (Math w)) w of
           ((nr, ng, nb, na), w0) \<Rightarrow>
             (case clamp_assign eng dat i nr w0 of
                (Inl t, w1) \<Rightarrow> (dat, w1, Some t)
              | (Inr d1, w1) \<Rightarrow>
                  (case clamp_assign eng d1 (i + 1) ng w1 of
                     (Inl t, w2) \<Rightarrow> (d1, w2, Some t)
                   | (Inr d2, w2) \<Rightarrow>
                       (case clamp_assign eng d2 (i + 2) nb w2 of
                          (Inl t, w3) \<Rightarrow> (d2, w3, Some t)
                        | (Inr d3, w3) \<Rightarrow>
                            (case clamp_assign eng d3 (i + 3) na w3 of
                               (Inl t, w4) \<Rightarrow> (d3, w4, Some t)
                             | (Inr d4, w4) \<Rightarrow> (d4, w4, None))))))"

text \<open>\<open>for (let i = 0; i < len; i += 4)\<close>.\<close>

function apply_loop ::
  "'x engine
   \<Rightarrow> (jsval \<Rightarrow> jsval \<Rightarrow> jsval \<Rightarrow> jsval \<Rightarrow> jsval \<Rightarrow> 'x world
        \<Rightarrow> (jsval \<times> jsval \<times> jsval \<times> jsval) \<times> 'x world)
   \<Rightarrow> nat \<Rightarrow> nat \<Rightarrow> byte list \<Rightarrow> 'x world \<Rightarrow> byte list \<times> 'x world \<times> thrown option" where
  "apply_loop eng shader len i dat w =
     (if i < len
      then (case apply_pixel eng shader i dat w of
              (dat', w', Some t) \<Rightarrow> (dat', w', Some t)
            | (dat', w', None) \<Rightarrow> apply_loop eng shader len (i + 4) dat' w')
      else (dat, w, None))"
  by pat_completeness auto
termination
  by (relation "measure (\<lambda>(eng, shader, len, i, dat, w). len - i)") auto

declare apply_loop.simps [simp del]

text \<open>
  The end of \<open>applyFormulas\<close>, with the copy \<open>dat\<close>, the state \<open>w\<close> and the exception that
  the outer \<open>catch\<close> has caught, if any: the copy enters the store at a fresh address, and
  the result refers to it. Reading \<open>err.message\<close> of a thrown \<open>null\<close> or \<open>undefined\<close>
  throws, and \<open>applyFormulas\<close> then throws this TypeError.
\<close>

definition finish ::
  "ImageData_ref \<Rightarrow> byte list \<Rightarrow> 'x world \<Rightarrow> thrown option
   \<Rightarrow> 'x world \<times> (js_error + apply_result)" where
  "finish originalData dat w t =
     (let newImageData = \<lparr>ref_width = ref_width originalData,
                          ref_height = ref_height originalData,
                          ref_data = length (arrays w)\<rparr>;
          w' = w\<lparr>arrays := arrays w @ [dat]\<rparr>
      in case t of
           None \<Rightarrow> (w', Inr \<lparr>result_data = newImageData, result_error = None\<rparr>)
         | Some (Message m) \<Rightarrow> (w', Inr \<lparr>result_data = newImageData, result_error = m\<rparr>)
         | Some Nullish \<Rightarrow> (w', Inl TypeError))"

text \<open>
  \<open>applyFormulas\<close>. The copy \<open>new Uint8ClampedArray(originalData.data)\<close> is made first;
  \<open>originalData\<close> is an ImageData, so the constructor of the new ImageData accepts the
  copy with the same width and height. The SyntaxError of \<open>new Function\<close> is caught by the
  outer \<open>catch\<close> as the exceptions of the loop are.
\<close>

definition ImageProcessor_applyFormulas ::
  "'x engine \<Rightarrow> 'x world \<Rightarrow> ImageData_ref \<Rightarrow> ChannelFormulas
   \<Rightarrow> 'x world \<times> (js_error + apply_result)" where
  "ImageProcessor_applyFormulas eng w originalData formulas =
     (let dat = arrays w ! ref_data originalData;
          len = length dat
      in case compile (parseExpr eng) formulas of
           Inl msg \<Rightarrow> finish originalData dat w (Some (Message (Some msg)))
         | Inr (er, eg, eb, ea) \<Rightarrow>
             (case apply_loop eng (compiledShader er eg eb ea) len 0 dat w of
                (dat', w', t) \<Rightarrow> finish originalData dat' w' t))"

section \<open>Properties of the TGA codec\<close>

subsection \<open>The decoding loop keeps the size of the pixel array\<close>

lemma length_store [simp]: "length (store arr i v) = length arr"
  by (simp add: store_def)

lemma length_setPixel [simp]:
  "length (setPixel px index w h r g b a btt) = length px"
  by (simp add: setPixel_def Let_def)

lemma rle_run_length [simp]:
  "length (pixels (rle_run n w h r g b a btt s)) = length (pixels s)"
  by (induction n arbitrary: s) simp_all

lemma raw_run_length [simp]:
  "length (pixels (raw_run n rawData pixelDepth w h btt s)) = length (pixels s)"
  by (induction n arbitrary: s) (simp_all split: prod.splits)

lemma decode_step_length [simp]:
  "length (pixels (decode_step imageType pixelDepth w h btt rawData s)) = length (pixels s)"
  by (simp add: decode_step_def Let_def split: prod.splits)

lemma decode_loop_length [simp]:
  "length (pixels (decode_loop imageType pixelDepth w h btt rawData totalPixels s))
   = length (pixels s)"
proof (induction imageType pixelDepth w h btt rawData totalPixels s rule: decode_loop.induct)
  case (1 imageType pixelDepth w h btt rawData totalPixels s)
  show ?case
  proof (cases "pixelIndex s < totalPixels")
    case True
    with "1" show ?thesis
      by (subst decode_loop.simps) simp
  next
    case False
    then show ?thesis by (subst decode_loop.simps) simp
  qed
qed

lemma ToUint8_rd_pad:
  "ToUint8 (rd (xs @ replicate n 0) i) = ToUint8 (rd xs i)"
  by (simp add: ToUint8_def rd_def nth_append)

lemma js_and_rd_pad:
  "js_and (rd (xs @ replicate n 0) i) m = js_and (rd xs i) m"
  by (simp add: js_and_def rd_def nth_append)

lemma store_ToUint8: "store arr i v = store arr i (Some (ToUint8 v))"
  by (simp add: store_def ToUint8_def)

lemma setPixel_ToUint8:
  "setPixel px index w h r g b a btt
   = setPixel px index w h (Some (ToUint8 r)) (Some (ToUint8 g)) (Some (ToUint8 b)) (Some (ToUint8 a)) btt"
  unfolding setPixel_def Let_def
  by (metis store_ToUint8)

lemma setPixel_cong:
  "ToUint8 r = ToUint8 r' \<Longrightarrow> ToUint8 g = ToUint8 g' \<Longrightarrow> ToUint8 b = ToUint8 b' \<Longrightarrow>
   ToUint8 a = ToUint8 a' \<Longrightarrow>
   setPixel px index w h r g b a btt = setPixel px index w h r' g' b' a' btt"
  by (metis setPixel_ToUint8)

lemma rle_run_cong:
  "ToUint8 r = ToUint8 r' \<Longrightarrow> ToUint8 g = ToUint8 g' \<Longrightarrow> ToUint8 b = ToUint8 b' \<Longrightarrow>
   ToUint8 a = ToUint8 a' \<Longrightarrow>
   rle_run n w h r g b a btt s = rle_run n w h r' g' b' a' btt s"
proof (induction n arbitrary: s)
  case 0
  show ?case by simp
next
  case (Suc n)
  have "setPixel (pixels s) (pixelIndex s) w h r g b a btt
        = setPixel (pixels s) (pixelIndex s) w h r' g' b' a' btt"
    using Suc.prems by (rule setPixel_cong)
  with Suc show ?case by simp
qed

lemma read_bgra_cases:
  obtains b g r a off' where "read_bgra raw d off = ((b, g, r, a), off')"
  by (cases "read_bgra raw d off") auto

lemma read_bgra_pad:
  assumes "read_bgra (raw @ replicate n 0) d off = ((b', g', r', a'), off')"
    and "read_bgra raw d off = ((b, g, r, a), off'')"
  shows "off' = off'' \<and> ToUint8 b' = ToUint8 b \<and> ToUint8 g' = ToUint8 g
         \<and> ToUint8 r' = ToUint8 r \<and> ToUint8 a' = ToUint8 a"
  using assms
  by (auto simp: read_bgra_def Let_def ToUint8_rd_pad split: if_splits)

lemma raw_run_pad:
  "raw_run k (raw @ replicate n 0) d w h btt s = raw_run k raw d w h btt s"
proof (induction k arbitrary: s)
  case 0
  show ?case by simp
next
  case (Suc k)
  obtain b' g' r' a' off' where p: "read_bgra (raw @ replicate n 0) d (offset s) = ((b', g', r', a'), off')"
    by (rule read_bgra_cases)
  obtain b g r a off'' where q: "read_bgra raw d (offset s) = ((b, g, r, a), off'')"
    by (rule read_bgra_cases)
  note e = read_bgra_pad [OF p q]
  have "setPixel (pixels s) (pixelIndex s) w h r' g' b' a' btt
        = setPixel (pixels s) (pixelIndex s) w h r g b a btt"
    using e by (intro setPixel_cong) simp_all
  with Suc p q e show ?case by simp
qed

lemma decode_step_pad:
  "decode_step t d w h btt (raw @ replicate n 0) s = decode_step t d w h btt raw s"
proof -
  obtain b' g' r' a' off' where p: "read_bgra (raw @ replicate n 0) d (offset s) = ((b', g', r', a'), off')"
    by (rule read_bgra_cases)
  obtain b g r a off'' where q: "read_bgra raw d (offset s) = ((b, g, r, a), off'')"
    by (rule read_bgra_cases)
  note e = read_bgra_pad [OF p q]
  obtain b1' g1' r1' a1' off1' where p1: "read_bgra (raw @ replicate n 0) d (Suc (offset s)) = ((b1', g1', r1', a1'), off1')"
    by (rule read_bgra_cases)
  obtain b1 g1 r1 a1 off1'' where q1: "read_bgra raw d (Suc (offset s)) = ((b1, g1, r1, a1), off1'')"
    by (rule read_bgra_cases)
  note e1 = read_bgra_pad [OF p1 q1]
  have sp: "setPixel (pixels s) (pixelIndex s) w h r' g' b' a' btt
        = setPixel (pixels s) (pixelIndex s) w h r g b a btt"
    using e by (intro setPixel_cong) simp_all
  have rl: "\<And>k s'. rle_run k w h r1' g1' b1' a1' btt s' = rle_run k w h r1 g1 b1 a1 btt s'"
    using e1 by (intro rle_run_cong) simp_all
  have sp1: "\<And>px i. setPixel px i w h r1' g1' b1' a1' btt = setPixel px i w h r1 g1 b1 a1 btt"
    using e1 by (intro setPixel_cong) simp_all
  show ?thesis
    using e e1 sp rl sp1
    by (simp add: decode_step_def Let_def p q p1 q1 js_and_rd_pad raw_run_pad)
qed

lemma decode_loop_pad:
  "decode_loop t d w h btt (raw @ replicate n 0) tot s = decode_loop t d w h btt raw tot s"
proof (induction t d w h btt raw tot s rule: decode_loop.induct)
  case (1 t d w h btt raw tot s)
  show ?case
  proof (cases "pixelIndex s < tot")
    case True
    have "decode_loop t d w h btt (raw @ replicate n 0) tot s
          = decode_loop t d w h btt (raw @ replicate n 0) tot (decode_step t d w h btt (raw @ replicate n 0) s)"
      using True by (subst decode_loop.simps) simp
    also have "\<dots> = decode_loop t d w h btt (raw @ replicate n 0) tot (decode_step t d w h btt raw s)"
      by (simp add: decode_step_pad)
    also have "\<dots> = decode_loop t d w h btt raw tot (decode_step t d w h btt raw s)"
      using "1" True by simp
    also have "\<dots> = decode_loop t d w h btt raw tot s"
      using True by (subst (2) decode_loop.simps) simp
    finally show ?thesis .
  next
    case False
    then show ?thesis by (simp add: decode_loop.simps)
  qed
qed

lemma new_ImageData_ok:
  assumes "length px = w * h * 4" and "1 \<le> w" and "1 \<le> h"
  shows "new_ImageData px w h = Inr \<lparr>width = w, height = h, data = px\<rparr>"
  using assms by (simp add: new_ImageData_def)

lemma TGA_header_Some_length:
  "TGA_header buffer = Some hdr \<Longrightarrow> 18 \<le> length buffer"
  by (auto simp: TGA_header_def getUint8_def getUint16_def split: if_splits Option.bind_splits)

lemma TGA_header_pad:
  "18 \<le> length buffer \<Longrightarrow> TGA_header (buffer @ replicate n 0) = TGA_header buffer"
  by (auto simp: TGA_header_def getUint8_def getUint16_def nth_append)

lemma TGA_decode_ok:
  assumes hd: "TGA_header buffer = Some (idLength, imageType, w, h, pixelDepth, descriptor)"
    and len: "18 + idLength \<le> length buffer"
    and ty: "imageType = 2 \<or> imageType = 10"
    and w: "1 \<le> w" and h: "1 \<le> h"
  shows "TGAConverter_decode buffer =
           Inr \<lparr>width = w, height = h,
                data = pixels (decode_loop imageType pixelDepth w h (descriptor AND 0x20 = 0)
                                 (drop (18 + idLength) buffer) (w * h)
                                 \<lparr>pixels = replicate (w * h * 4) 0, offset = 0, pixelIndex = 0\<rparr>)\<rparr>"
proof -
  let ?s = "decode_loop imageType pixelDepth w h (descriptor AND 0x20 = 0)
              (drop (18 + idLength) buffer) (w * h)
              \<lparr>pixels = replicate (w * h * 4) 0, offset = 0, pixelIndex = 0\<rparr>"
  have "length (pixels ?s) = w * h * 4" by simp
  then have "new_ImageData (pixels ?s) w h = Inr \<lparr>width = w, height = h, data = pixels ?s\<rparr>"
    using w h by (rule new_ImageData_ok)
  then show ?thesis
    using hd len ty by (auto simp: TGAConverter_decode_def Let_def)
qed

lemma TGA_decode_pad:
  assumes hd: "TGA_header buffer = Some (idLength, imageType, w, h, pixelDepth, descriptor)"
    and len: "18 + idLength \<le> length buffer"
  shows "TGAConverter_decode (buffer @ replicate n 0) = TGAConverter_decode buffer"
proof -
  have "18 \<le> length buffer" using len by simp
  then have hd': "TGA_header (buffer @ replicate n 0) = Some (idLength, imageType, w, h, pixelDepth, descriptor)"
    using hd by (simp add: TGA_header_pad)
  have dr: "drop (18 + idLength) (buffer @ replicate n 0) = drop (18 + idLength) buffer @ replicate n 0"
    using len by simp
  show ?thesis
    using len by (simp add: TGAConverter_decode_def hd hd' Let_def dr decode_loop_pad del: drop_append)
qed

text \<open>
  C10. For every TGA buffer of at least 18 + idLength bytes whose header declares image
  type 2 or 10 and a width and height of at least 1, \<open>decode\<close> returns (the loop is a total
  function, and no error branch is taken) a pixel buffer of exactly width * height * 4
  bytes, however short the pixel data is. A read beyond the available bytes behaves as a
  read of the byte 0: the result is the one of the same buffer extended by any number of
  zero bytes.
\<close>

theorem TGA_decode_truncated_total:
  assumes "TGA_header buffer = Some (idLength, imageType, w, h, pixelDepth, descriptor)"
    and "18 + idLength \<le> length buffer"
    and "imageType = 2 \<or> imageType = 10"
    and "1 \<le> w" and "1 \<le> h"
  shows "\<exists>px. TGAConverter_decode buffer = Inr \<lparr>width = w, height = h, data = px\<rparr>
              \<and> length px = w * h * 4
              \<and> (\<forall>n. TGAConverter_decode (buffer @ replicate n 0)
                       = Inr \<lparr>width = w, height = h, data = px\<rparr>)"
proof -
  let ?px = "pixels (decode_loop imageType pixelDepth w h (descriptor AND 0x20 = 0)
                       (drop (18 + idLength) buffer) (w * h)
                       \<lparr>pixels = replicate (w * h * 4) 0, offset = 0, pixelIndex = 0\<rparr>)"
  have d: "TGAConverter_decode buffer = Inr \<lparr>width = w, height = h, data = ?px\<rparr>"
    using assms by (rule TGA_decode_ok)
  moreover have "length ?px = w * h * 4" by simp
  moreover have "\<forall>n. TGAConverter_decode (buffer @ replicate n 0)
                     = Inr \<lparr>width = w, height = h, data = ?px\<rparr>"
    using TGA_decode_pad [OF assms(1,2)] d by simp
  ultimately show ?thesis by blast
qed

text \<open>
  The witness: a run-length encoded image of 2 by 1 pixels, 32 bits, top to bottom, whose
  data holds one raw packet of one pixel and then ends.
\<close>

theorem TGA_decode_truncated_total_witness:
  "TGA_header [0,0,10,0,0,0,0,0,0,0,0,0,2,0,1,0,32,0x20, 0, 1,2,3,4]
     = Some (0, 10, 2, 1, 32, 0x20)
   \<and> (\<exists>px. TGAConverter_decode [0,0,10,0,0,0,0,0,0,0,0,0,2,0,1,0,32,0x20, 0, 1,2,3,4]
               = Inr \<lparr>width = 2, height = 1, data = px\<rparr>
           \<and> length px = 2 * 1 * 4
           \<and> (\<forall>n. TGAConverter_decode
                      ([0,0,10,0,0,0,0,0,0,0,0,0,2,0,1,0,32,0x20, 0, 1,2,3,4] @ replicate n 0)
                    = Inr \<lparr>width = 2, height = 1, data = px\<rparr>))"
proof -
  have hd: "TGA_header [0,0,10,0,0,0,0,0,0,0,0,0,2,0,1,0,32,0x20, 0, 1,2,3,4]
              = Some (0, 10, 2, 1, 32, 0x20)"
    by code_simp
  show ?thesis
    using hd TGA_decode_truncated_total [OF hd] by simp
qed

text \<open>
  C2 (as stated: a run-length stream that ends early makes \<open>decode\<close> fail with
  CorruptData and return no buffer). The code has no such check. The image of the witness
  above is truncated after its first pixel, and \<open>decode\<close> returns a buffer: the pixel that
  was read, followed by a pixel of zeros.
\<close>

theorem TGA_rle_truncated_counterexample:
  "TGA_header [0,0,10,0,0,0,0,0,0,0,0,0,2,0,1,0,32,0x20, 0, 1,2,3,4]
     = Some (0, 10, 2, 1, 32, 0x20)
   \<and> TGA_stream_truncated [0,0,10,0,0,0,0,0,0,0,0,0,2,0,1,0,32,0x20, 0, 1,2,3,4]
   \<and> TGAConverter_decode [0,0,10,0,0,0,0,0,0,0,0,0,2,0,1,0,32,0x20, 0, 1,2,3,4]
       = Inr \<lparr>width = 2, height = 1, data = [3,2,1,4,0,0,0,0]\<rparr>"
  by code_simp

text \<open>
  C2 (amended). For every TGA buffer of at least 18 + idLength bytes whose header
  declares image type 10 and a width and height of at least 1, and whose packet stream is
  truncated, \<open>decode\<close> does not fail: it returns a pixel buffer of the declared width and
  height with width * height * 4 bytes.
\<close>

theorem TGA_rle_truncated_returns_buffer:
  assumes "TGA_header buffer = Some (idLength, 10, w, h, pixelDepth, descriptor)"
    and "18 + idLength \<le> length buffer"
    and "1 \<le> w" and "1 \<le> h"
    and "TGA_stream_truncated buffer"
  shows "\<exists>img. TGAConverter_decode buffer = Inr img
               \<and> width img = w \<and> height img = h \<and> length (data img) = w * h * 4"
proof -
  have "TGAConverter_decode buffer =
           Inr \<lparr>width = w, height = h,
                data = pixels (decode_loop 10 pixelDepth w h (descriptor AND 0x20 = 0)
                                 (drop (18 + idLength) buffer) (w * h)
                                 \<lparr>pixels = replicate (w * h * 4) 0, offset = 0, pixelIndex = 0\<rparr>)\<rparr>"
    using assms(1,2) _ assms(3,4) by (rule TGA_decode_ok) simp
  then show ?thesis by simp
qed

theorem TGA_rle_truncated_returns_buffer_witness:
  "TGA_header [0,0,10,0,0,0,0,0,0,0,0,0,2,0,1,0,32,0x20, 0, 1,2,3,4]
     = Some (0, 10, 2, 1, 32, 0x20)
   \<and> TGA_stream_truncated [0,0,10,0,0,0,0,0,0,0,0,0,2,0,1,0,32,0x20, 0, 1,2,3,4]
   \<and> (\<exists>img. TGAConverter_decode [0,0,10,0,0,0,0,0,0,0,0,0,2,0,1,0,32,0x20, 0, 1,2,3,4]
                = Inr img
            \<and> width img = 2 \<and> height img = 1 \<and> length (data img) = 2 * 1 * 4)"
proof -
  have hd: "TGA_header [0,0,10,0,0,0,0,0,0,0,0,0,2,0,1,0,32,0x20, 0, 1,2,3,4]
              = Some (0, 10, 2, 1, 32, 0x20)"
    by code_simp
  have tr: "TGA_stream_truncated [0,0,10,0,0,0,0,0,0,0,0,0,2,0,1,0,32,0x20, 0, 1,2,3,4]"
    by code_simp
  show ?thesis
    using hd tr TGA_rle_truncated_returns_buffer [OF hd _ _ _ tr] by simp
qed

subsection \<open>What the encoder writes\<close>

text \<open>
  The four bytes \<open>encode\<close> writes for the pixel at column \<open>x\<close> of row \<open>y\<close> (B, G, R, A),
  the bytes of a row, and the 18 bytes of the header it writes.
\<close>

definition bgra_bytes :: "byte list \<Rightarrow> nat \<Rightarrow> nat \<Rightarrow> nat \<Rightarrow> byte list" where
  "bgra_bytes dat w y x =
     [ToUint8 (rd dat ((y * w + x) * 4 + 2)), ToUint8 (rd dat ((y * w + x) * 4 + 1)),
      ToUint8 (rd dat ((y * w + x) * 4 + 0)), ToUint8 (rd dat ((y * w + x) * 4 + 3))]"

lemma store_nat: "i < length arr \<Longrightarrow> store arr (int i) v = arr[i := ToUint8 v]"
  by (simp add: store_def)

lemma store4_conv:
  assumes "off + 4 \<le> length out"
  shows "store (store (store (store out (int off) a) (int off + 1) b) (int off + 2) c) (int off + 3) d
         = take off out @ [ToUint8 a, ToUint8 b, ToUint8 c, ToUint8 d] @ drop (off + 4) out"
proof -
  have i1: "int off + 1 = int (off + 1)" and i2: "int off + 2 = int (off + 2)"
    and i3: "int off + 3 = int (off + 3)" by simp_all
  have "store (store (store (store out (int off) a) (int off + 1) b) (int off + 2) c) (int off + 3) d
        = out[off := ToUint8 a, off + 1 := ToUint8 b, off + 2 := ToUint8 c, off + 3 := ToUint8 d]"
    using assms unfolding i1 i2 i3 by (simp only: store_nat length_list_update)
  also have "\<dots> = take off out @ [ToUint8 a, ToUint8 b, ToUint8 c, ToUint8 d] @ drop (off + 4) out"
    using assms
    by (intro nth_equalityI) (auto simp: nth_append nth_list_update nth_Cons' min_def)
  finally show ?thesis .
qed

lemma encode_pixel_conv:
  assumes "off + 4 \<le> length out"
  shows "encode_pixel dat w y x (out, off)
         = (take off out @ bgra_bytes dat w y x @ drop (off + 4) out, off + 4)"
  using store4_conv [OF assms]
  by (simp add: encode_pixel_def Let_def bgra_bytes_def)

lemma length_bgra_bytes [simp]: "length (bgra_bytes dat w y x) = 4"
  by (simp add: bgra_bytes_def)

lemma length_concat_bgra [simp]:
  "length (concat (map (bgra_bytes dat w y) xs)) = 4 * length xs"
  by (induction xs) simp_all

lemma encode_cols_conv:
  assumes "off + 4 * n \<le> length out"
  shows "fold (\<lambda>x st. encode_pixel dat w y x st) [0..<n] (out, off)
         = (take off out @ concat (map (bgra_bytes dat w y) [0..<n]) @ drop (off + 4 * n) out,
            off + 4 * n)"
  using assms
proof (induction n)
  case 0
  show ?case by simp
next
  case (Suc n)
  let ?C = "concat (map (bgra_bytes dat w y) [0..<n])"
  let ?o1 = "take off out @ ?C @ drop (off + 4 * n) out"
  have ih: "fold (\<lambda>x st. encode_pixel dat w y x st) [0..<n] (out, off) = (?o1, off + 4 * n)"
    using Suc by simp
  have len: "length ?o1 = length out" using Suc.prems by simp
  have fits: "(off + 4 * n) + 4 \<le> length ?o1" using Suc.prems len by simp
  have tk: "take (off + 4 * n) ?o1 = take off out @ ?C"
    using Suc.prems by simp
  have dr: "drop (off + 4 * n + 4) ?o1 = drop (off + 4 * Suc n) out"
    using Suc.prems by (simp add: ac_simps)
  have "fold (\<lambda>x st. encode_pixel dat w y x st) [0..<Suc n] (out, off)
        = encode_pixel dat w y n (?o1, off + 4 * n)"
    by (simp add: ih)
  also have "\<dots> = (take (off + 4 * n) ?o1 @ bgra_bytes dat w y n @ drop (off + 4 * n + 4) ?o1,
                     off + 4 * n + 4)"
    by (rule encode_pixel_conv [OF fits])
  also have "\<dots> = (take off out @ concat (map (bgra_bytes dat w y) [0..<Suc n])
                      @ drop (off + 4 * Suc n) out, off + 4 * Suc n)"
    unfolding tk dr by simp
  finally show ?case .
qed

definition row_bytes :: "byte list \<Rightarrow> nat \<Rightarrow> nat \<Rightarrow> byte list" where
  "row_bytes dat w y = concat (map (bgra_bytes dat w y) [0..<w])"

lemma length_row_bytes [simp]: "length (row_bytes dat w y) = 4 * w"
  by (simp add: row_bytes_def)

lemma length_concat_rows [simp]:
  "length (concat (map (row_bytes dat w) ys)) = 4 * w * length ys"
  by (induction ys) (simp_all add: algebra_simps)

lemma encode_rows_conv:
  assumes "off + 4 * w * h \<le> length out"
  shows "encode_rows dat w h (out, off)
         = (take off out @ concat (map (row_bytes dat w) (rev [0..<h])) @ drop (off + 4 * w * h) out,
            off + 4 * w * h)"
  using assms
proof (induction h arbitrary: out off)
  case 0
  show ?case by (simp add: encode_rows_def)
next
  case (Suc h)
  let ?R = "row_bytes dat w h"
  let ?o1 = "take off out @ ?R @ drop (off + 4 * w) out"
  have fit1: "off + 4 * w \<le> length out" using Suc.prems by simp
  have row: "fold (\<lambda>x st. encode_pixel dat w h x st) [0..<w] (out, off) = (?o1, off + 4 * w)"
    using encode_cols_conv [OF fit1] by (simp add: row_bytes_def)
  have len: "length ?o1 = length out" using fit1 by simp
  have fit2: "(off + 4 * w) + 4 * w * h \<le> length ?o1" using Suc.prems len by simp
  have tk: "take (off + 4 * w) ?o1 = take off out @ ?R" using fit1 by simp
  have ar: "off + 4 * w + 4 * w * h = off + 4 * w * Suc h" by (simp add: algebra_simps)
  have dr: "drop (off + 4 * w + 4 * w * h) ?o1 = drop (off + 4 * w * Suc h) out"
    unfolding ar using Suc.prems by (simp add: algebra_simps)
  have "encode_rows dat w (Suc h) (out, off) = encode_rows dat w h (?o1, off + 4 * w)"
    using row by (simp add: encode_rows_def)
  also have "\<dots> = (take (off + 4 * w) ?o1 @ concat (map (row_bytes dat w) (rev [0..<h]))
                       @ drop (off + 4 * w + 4 * w * h) ?o1, off + 4 * w + 4 * w * h)"
    by (rule Suc.IH [OF fit2])
  also have "\<dots> = (take off out @ concat (map (row_bytes dat w) (rev [0..<Suc h]))
                      @ drop (off + 4 * w * Suc h) out, off + 4 * w * Suc h)"
    unfolding tk dr by (simp add: algebra_simps)
  finally show ?case .
qed

definition TGA_header_bytes :: "nat \<Rightarrow> nat \<Rightarrow> byte list" where
  "TGA_header_bytes w h =
     [0, 0, 2, 0, 0, 0, 0, 0, 0, 0, 0, 0,
      of_nat (w mod 256), of_nat ((w div 256) mod 256),
      of_nat (h mod 256), of_nat ((h div 256) mod 256), 32, 8]"

lemma replicate_18: "replicate 18 (0::byte) = [0,0,0,0,0,0,0,0,0,0,0,0,0,0,0,0,0,0]"
  by (simp add: numeral_eq_Suc)

lemma TGA_header_written:
  "take 18 (setUint8 (setUint8 (setUint16 (setUint16 (setUint8 (replicate (18 + n) 0) 2 2) 12 w) 14 h) 16 32) 17 8)
   = TGA_header_bytes w h"
proof -
  have "replicate (18 + n) (0::byte) = replicate 18 0 @ replicate n 0"
    by (simp add: replicate_add)
  then show ?thesis
    by (simp add: setUint8_def setUint16_def list_update_append replicate_18 TGA_header_bytes_def)
qed

lemma TGAConverter_encode_conv:
  "TGAConverter_encode img
   = TGA_header_bytes (width img) (height img)
     @ concat (map (row_bytes (data img) (width img)) (rev [0..<height img]))"
proof -
  let ?w = "width img" and ?h = "height img"
  let ?v5 = "setUint8 (setUint8 (setUint16 (setUint16 (setUint8
               (replicate (18 + ?w * ?h * 4) 0) 2 2) 12 ?w) 14 ?h) 16 32) 17 8"
  have len: "length ?v5 = 18 + 4 * ?w * ?h"
    by (simp add: setUint8_def setUint16_def)
  then have fit: "18 + 4 * ?w * ?h \<le> length ?v5" by simp
  have "TGAConverter_encode img = fst (encode_rows (data img) ?w ?h (?v5, 18))"
    by (simp add: TGAConverter_encode_def Let_def)
  also have "\<dots> = take 18 ?v5 @ concat (map (row_bytes (data img) ?w) (rev [0..<?h]))
                     @ drop (18 + 4 * ?w * ?h) ?v5"
    by (subst encode_rows_conv [OF fit]) simp
  also have "drop (18 + 4 * ?w * ?h) ?v5 = []" using len by simp
  also have "take 18 ?v5 = TGA_header_bytes ?w ?h" by (rule TGA_header_written)
  finally show ?thesis by simp
qed

lemma nth_concat_uniform:
  assumes "\<forall>xs \<in> set xss. length xs = n" and "i < length xss" and "j < n"
  shows "concat xss ! (i * n + j) = xss ! i ! j"
  using assms
proof (induction xss arbitrary: i)
  case Nil
  then show ?case by simp
next
  case (Cons xs xss)
  show ?case
  proof (cases i)
    case 0
    with Cons.prems show ?thesis by (simp add: nth_append)
  next
    case (Suc i')
    have "concat (xs # xss) ! (i * n + j) = concat xss ! (i' * n + j)"
      using Cons.prems Suc by (simp add: nth_append)
    also have "\<dots> = xss ! i' ! j"
      using Cons.prems Suc by (intro Cons.IH) simp_all
    finally show ?thesis using Suc by simp
  qed
qed

text \<open>
  The vertical flip of a pixel index: the pixel \<open>j\<close> of the stored stream lies in row
  \<open>h - 1 - j div w\<close> of the canonical buffer.
\<close>

definition flip_index :: "nat \<Rightarrow> nat \<Rightarrow> nat \<Rightarrow> nat" where
  "flip_index w h j = (h - 1 - j div w) * w + j mod w"

lemma flip_index_less:
  assumes "j < w * h"
  shows "flip_index w h j < w * h"
proof -
  have w: "0 < w" using assms by (cases w) simp_all
  have q: "j div w < h" using assms w by (simp add: less_mult_imp_div_less mult.commute)
  have "(h - 1 - j div w) * w + j mod w < (h - 1 - j div w) * w + w"
    using w by simp
  also have "\<dots> = (h - j div w) * w"
  proof -
    have "h - j div w = Suc (h - 1 - j div w)" using q by simp
    then show ?thesis by simp
  qed
  also have "\<dots> \<le> h * w" by simp
  finally show ?thesis by (simp add: flip_index_def mult.commute)
qed

lemma flip_index_div_mod:
  assumes "j < w * h"
  shows "flip_index w h j div w = h - 1 - j div w" and "flip_index w h j mod w = j mod w"
proof -
  have w: "0 < w" using assms by (cases w) simp_all
  show "flip_index w h j div w = h - 1 - j div w"
    using w by (simp add: flip_index_def)
  show "flip_index w h j mod w = j mod w"
    using w by (simp add: flip_index_def)
qed

lemma flip_index_involution:
  assumes "j < w * h"
  shows "flip_index w h (flip_index w h j) = j"
proof -
  have w: "0 < w" using assms by (cases w) simp_all
  have q: "j div w < h" using assms w by (simp add: less_mult_imp_div_less mult.commute)
  have "flip_index w h (flip_index w h j) = (h - 1 - (h - 1 - j div w)) * w + j mod w"
    unfolding flip_index_def [of w h "flip_index w h j"] flip_index_div_mod [OF assms] ..
  also have "h - 1 - (h - 1 - j div w) = j div w" using q by simp
  finally show ?thesis by simp
qed

lemma row_bytes_nth:
  assumes "x < w" and "c < 4"
  shows "row_bytes dat w y ! (4 * x + c) = bgra_bytes dat w y x ! c"
proof -
  have "concat (map (bgra_bytes dat w y) [0..<w]) ! (x * 4 + c)
        = map (bgra_bytes dat w y) [0..<w] ! x ! c"
    using assms by (intro nth_concat_uniform) simp_all
  then show ?thesis using assms by (simp add: row_bytes_def mult.commute)
qed

lemma encoded_body_nth:
  assumes "j < w * h" and "c < 4"
  shows "concat (map (row_bytes dat w) (rev [0..<h])) ! (4 * j + c)
         = bgra_bytes dat w (h - 1 - j div w) (j mod w) ! c"
proof -
  have w: "0 < w" using assms by (cases w) simp_all
  have q: "j div w < h" using assms w by (simp add: less_mult_imp_div_less mult.commute)
  have "j mod w < w" using w by simp
  then have r: "4 * (j mod w) + c < 4 * w" using assms(2) by arith
  have eq: "4 * j + c = (j div w) * (4 * w) + (4 * (j mod w) + c)"
  proof -
    have "(j div w) * (4 * w) + (4 * (j mod w) + c) = 4 * ((j div w) * w + j mod w) + c"
      by (simp only: algebra_simps)
    also have "(j div w) * w + j mod w = j" by simp
    finally show ?thesis by simp
  qed
  have "concat (map (row_bytes dat w) (rev [0..<h])) ! (4 * j + c)
             = concat (map (row_bytes dat w) (rev [0..<h])) ! ((j div w) * (4 * w) + (4 * (j mod w) + c))"
    by (simp only: eq)
  also have "\<dots> = map (row_bytes dat w) (rev [0..<h]) ! (j div w) ! (4 * (j mod w) + c)"
    using q r by (intro nth_concat_uniform) simp_all
  also have "\<dots> = row_bytes dat w (h - 1 - j div w) ! (4 * (j mod w) + c)"
    using q by (simp add: rev_nth)
  also have "\<dots> = bgra_bytes dat w (h - 1 - j div w) (j mod w) ! c"
    using w assms(2) by (intro row_bytes_nth) simp_all
  finally show ?thesis .
qed

text \<open>The exchange of the channels 0 and 2 (R and B) within a pixel.\<close>

definition bgra_pos :: "nat \<Rightarrow> nat" where
  "bgra_pos c = (if c = 0 then 2 else if c = 2 then 0 else c)"

lemma bgra_pos_involution [simp]: "bgra_pos (bgra_pos c) = c"
  by (simp add: bgra_pos_def)

lemma bgra_pos_less [simp]: "c < 4 \<Longrightarrow> bgra_pos c < 4"
  by (simp add: bgra_pos_def)

lemma nth_bgra:
  assumes "c < 4"
  shows "[f 2, f 1, f 0, f 3] ! c = f (bgra_pos c)"
proof -
  from assms have "c = 0 \<or> c = 1 \<or> c = 2 \<or> c = 3" by arith
  then show ?thesis by (elim disjE) (simp_all add: bgra_pos_def)
qed

lemma bgra_bytes_nth:
  assumes "c < 4"
  shows "bgra_bytes dat w y x ! c = ToUint8 (rd dat ((y * w + x) * 4 + bgra_pos c))"
  using nth_bgra [OF assms, of "\<lambda>i. ToUint8 (rd dat ((y * w + x) * 4 + i))"]
  by (simp add: bgra_bytes_def)

lemma setPixel_flipped:
  assumes k: "k < w * h" and len: "length px = 4 * w * h"
  shows "setPixel px k w h r g b a True
         = take (4 * flip_index w h k) px @ [ToUint8 r, ToUint8 g, ToUint8 b, ToUint8 a]
           @ drop (4 * flip_index w h k + 4) px"
proof -
  let ?t = "flip_index w h k"
  have w: "0 < w" using k by (cases w) simp_all
  have q: "k div w < h" using k w by (simp add: less_mult_imp_div_less mult.commute)
  have "int ?t = int (h - 1 - k div w) * int w + int (k mod w)"
    by (simp add: flip_index_def)
  also have "int (h - 1 - k div w) = int h - 1 - int (k div w)"
    using q by simp
  finally have idx: "((int h - 1 - int (k div w)) * int w + int (k mod w)) * 4 = int (4 * ?t)"
    by simp
  have "?t < w * h" using k by (rule flip_index_less)
  then have fit: "4 * ?t + 4 \<le> length px" using len by simp
  have "setPixel px k w h r g b a True
        = store (store (store (store px (int (4 * ?t)) r) (int (4 * ?t) + 1) g)
            (int (4 * ?t) + 2) b) (int (4 * ?t) + 3) a"
    by (simp only: setPixel_def Let_def if_True idx)
  also have "\<dots> = take (4 * ?t) px @ [ToUint8 r, ToUint8 g, ToUint8 b, ToUint8 a]
                     @ drop (4 * ?t + 4) px"
    by (rule store4_conv [OF fit])
  finally show ?thesis .
qed

lemma setPixel_flipped_nth:
  assumes k: "k < w * h" and len: "length px = 4 * w * h" and p: "p < 4 * w * h"
  shows "setPixel px k w h r g b a True ! p
         = (if p div 4 = flip_index w h k
            then [ToUint8 r, ToUint8 g, ToUint8 b, ToUint8 a] ! (p mod 4)
            else px ! p)"
proof -
  let ?t = "flip_index w h k"
  have "?t < w * h" using k by (rule flip_index_less)
  then have fit: "4 * ?t + 4 \<le> length px" using len by simp
  show ?thesis
  proof (cases "p div 4 = ?t")
    case True
    have dm: "4 * (p div 4) + p mod 4 = p" by simp
    have ml: "p mod 4 < 4" by simp
    have ge: "4 * ?t \<le> p" and lt: "p < 4 * ?t + 4" and m: "p - 4 * ?t = p mod 4"
      using True dm ml by arith+
    let ?L = "[ToUint8 r, ToUint8 g, ToUint8 b, ToUint8 a]"
    have lt4: "length (take (4 * ?t) px) = 4 * ?t" using fit by simp
    have "setPixel px k w h r g b a True ! p
          = (take (4 * ?t) px @ ?L @ drop (4 * ?t + 4) px) ! p"
      by (simp only: setPixel_flipped [OF k len])
    also have "\<dots> = (?L @ drop (4 * ?t + 4) px) ! (p - 4 * ?t)"
      using ge by (simp only: nth_append lt4) simp
    also have "\<dots> = ?L ! (p mod 4)"
    proof -
      have l4: "length ?L = 4" by simp
      show ?thesis using ml unfolding m by (simp only: nth_append l4 if_True)
    qed
    finally show ?thesis using True by simp
  next
    case False
    then have "p < 4 * ?t \<or> 4 * ?t + 4 \<le> p" by arith
    then show ?thesis
      using False fit p len
      by (auto simp: setPixel_flipped [OF k len] nth_append)
  qed
qed

lemma decode_step_raw32:
  "decode_step 2 32 w h True raw \<lparr>pixels = px, offset = 4 * k, pixelIndex = k\<rparr>
   = \<lparr>pixels = setPixel px k w h (rd raw (4 * k + 2)) (rd raw (4 * k + 1)) (rd raw (4 * k))
                 (rd raw (4 * k + 3)) True,
      offset = 4 * (k + 1), pixelIndex = k + 1\<rparr>"
  by (simp add: decode_step_def read_bgra_def Let_def)

lemma decode_loop_raw32_nth:
  assumes "length px = 4 * w * h" and "k \<le> w * h" and "p < 4 * w * h"
  shows "pixels (decode_loop 2 32 w h True raw (w * h)
                   \<lparr>pixels = px, offset = 4 * k, pixelIndex = k\<rparr>) ! p
         = (if k \<le> flip_index w h (p div 4)
            then ToUint8 (rd raw (4 * flip_index w h (p div 4) + bgra_pos (p mod 4)))
            else px ! p)"
  using assms
proof (induction "w * h - k" arbitrary: px k)
  case 0
  then have k: "k = w * h" by simp
  have "p div 4 < w * h" using "0.prems"(3) by simp
  then have "flip_index w h (p div 4) < w * h" by (rule flip_index_less)
  then show ?case
    using k by (subst decode_loop.simps) simp
next
  case (Suc n)
  then have k: "k < w * h" by simp
  let ?q = "p div 4"
  let ?px' = "setPixel px k w h (rd raw (4 * k + 2)) (rd raw (4 * k + 1)) (rd raw (4 * k))
                (rd raw (4 * k + 3)) True"
  have q: "?q < w * h" using Suc.prems(3) by simp
  have len': "length ?px' = 4 * w * h" using Suc.prems(1) by simp
  have c: "p mod 4 < 4" by simp
  have step: "pixels (decode_loop 2 32 w h True raw (w * h)
                        \<lparr>pixels = px, offset = 4 * k, pixelIndex = k\<rparr>) ! p
              = pixels (decode_loop 2 32 w h True raw (w * h)
                        \<lparr>pixels = ?px', offset = 4 * (k + 1), pixelIndex = k + 1\<rparr>) ! p"
    using k by (subst decode_loop.simps) (simp add: decode_step_raw32)
  have n: "n = w * h - (k + 1)" using Suc.hyps(2) by simp
  have k1: "k + 1 \<le> w * h" using k by simp
  have ih: "pixels (decode_loop 2 32 w h True raw (w * h)
                        \<lparr>pixels = ?px', offset = 4 * (k + 1), pixelIndex = k + 1\<rparr>) ! p
      = (if k + 1 \<le> flip_index w h ?q
         then ToUint8 (rd raw (4 * flip_index w h ?q + bgra_pos (p mod 4)))
         else ?px' ! p)"
    using n len' k1 Suc.prems(3) by (rule Suc.hyps(1))
  have sp: "?px' ! p = (if ?q = flip_index w h k
            then [ToUint8 (rd raw (4 * k + 2)), ToUint8 (rd raw (4 * k + 1)),
                  ToUint8 (rd raw (4 * k)), ToUint8 (rd raw (4 * k + 3))] ! (p mod 4)
            else px ! p)"
    using k Suc.prems(1,3) by (rule setPixel_flipped_nth)
  have sel: "[ToUint8 (rd raw (4 * k + 2)), ToUint8 (rd raw (4 * k + 1)),
              ToUint8 (rd raw (4 * k)), ToUint8 (rd raw (4 * k + 3))] ! (p mod 4)
             = ToUint8 (rd raw (4 * k + bgra_pos (p mod 4)))"
    using nth_bgra [OF c, of "\<lambda>i. ToUint8 (rd raw (4 * k + i))"] by simp
  have res: "pixels (decode_loop 2 32 w h True raw (w * h)
                        \<lparr>pixels = px, offset = 4 * k, pixelIndex = k\<rparr>) ! p
     = (if k + 1 \<le> flip_index w h ?q
        then ToUint8 (rd raw (4 * flip_index w h ?q + bgra_pos (p mod 4)))
        else if ?q = flip_index w h k then ToUint8 (rd raw (4 * k + bgra_pos (p mod 4)))
        else px ! p)"
    by (simp only: step ih sp sel)
  have inv_q: "flip_index w h (flip_index w h ?q) = ?q" using q by (rule flip_index_involution)
  have inv_k: "flip_index w h (flip_index w h k) = k" using k by (rule flip_index_involution)
  consider (gt) "k + 1 \<le> flip_index w h ?q" | (eq) "flip_index w h ?q = k"
    | (lt) "flip_index w h ?q < k" by arith
  then show ?case
  proof cases
    case gt
    then show ?thesis using res by simp
  next
    case eq
    then have "?q = flip_index w h k" using inv_q by simp
    then show ?thesis using res eq by simp
  next
    case lt
    then have "?q \<noteq> flip_index w h k" using inv_k by auto
    then show ?thesis using res lt by simp
  qed
qed

lemma length_TGA_header_bytes [simp]: "length (TGA_header_bytes w h) = 18"
  by (simp add: TGA_header_bytes_def)

lemma le16_value: "(w::nat) mod 256 + 256 * (w div 256 mod 256) = w mod 65536"
proof -
  have "w mod (256 * 256) = 256 * (w div 256 mod 256) + w mod 256"
    by (rule mod_mult2_eq)
  then show ?thesis by simp
qed

lemma TGA_header_encoded:
  "TGA_header (TGA_header_bytes w h @ body) = Some (0, 2, w mod 65536, h mod 65536, 32, 8)"
proof -
  have b: "(TGA_header_bytes w h @ body) ! 0 = 0"
    "(TGA_header_bytes w h @ body) ! 2 = 2"
    "(TGA_header_bytes w h @ body) ! 12 = of_nat (w mod 256)"
    "(TGA_header_bytes w h @ body) ! (12 + 1) = of_nat ((w div 256) mod 256)"
    "(TGA_header_bytes w h @ body) ! 14 = of_nat (h mod 256)"
    "(TGA_header_bytes w h @ body) ! (14 + 1) = of_nat ((h div 256) mod 256)"
    "(TGA_header_bytes w h @ body) ! 16 = 32"
    "(TGA_header_bytes w h @ body) ! 17 = 8"
    by (simp_all add: TGA_header_bytes_def)
  have l: "18 \<le> length (TGA_header_bytes w h @ body)" by simp
  show ?thesis
    using l unfolding TGA_header_def getUint8_def getUint16_def b
    by (simp add: unat_of_nat le16_value)
qed

lemma TGA_roundtrip_pixels:
  assumes w: "1 \<le> w" and h: "1 \<le> h" and len: "length dat = w * h * 4"
  shows "pixels (decode_loop 2 32 w h True
                   (concat (map (row_bytes dat w) (rev [0..<h]))) (w * h)
                   \<lparr>pixels = replicate (w * h * 4) 0, offset = 0, pixelIndex = 0\<rparr>) = dat"
proof (rule nth_equalityI)
  let ?B = "concat (map (row_bytes dat w) (rev [0..<h]))"
  let ?res = "pixels (decode_loop 2 32 w h True ?B (w * h)
                   \<lparr>pixels = replicate (w * h * 4) 0, offset = 0, pixelIndex = 0\<rparr>)"
  show "length ?res = length dat" using len by simp
  fix p assume "p < length ?res"
  then have p: "p < 4 * w * h" by (simp add: mult.commute mult.left_commute)
  let ?q = "p div 4" and ?c = "p mod 4"
  let ?t = "flip_index w h ?q"
  have q: "?q < w * h" using p by simp
  have c: "?c < 4" by simp
  have t: "?t < w * h" using q by (rule flip_index_less)
  have bc: "bgra_pos ?c < 4" using c by simp
  have lenB: "length ?B = 4 * w * h" by simp
  have "4 * ?t + bgra_pos ?c < 4 * (w * h)" using t bc by arith
  then have inB: "4 * ?t + bgra_pos ?c < length ?B" using lenB by (simp add: mult.assoc)
  have init: "\<lparr>pixels = replicate (w * h * 4) (0::byte), offset = 0, pixelIndex = 0\<rparr>
              = \<lparr>pixels = replicate (w * h * 4) 0, offset = 4 * 0, pixelIndex = 0\<rparr>" by simp
  have "?res ! p = ToUint8 (rd ?B (4 * ?t + bgra_pos ?c))"
    unfolding init
    by (subst decode_loop_raw32_nth) (use p in \<open>simp_all add: mult.commute mult.left_commute\<close>)
  also have "\<dots> = ?B ! (4 * ?t + bgra_pos ?c)"
    using inB by (simp add: rd_def ToUint8_def)
  also have "\<dots> = bgra_bytes dat w (h - 1 - ?t div w) (?t mod w) ! bgra_pos ?c"
    using t bc by (rule encoded_body_nth)
  also have "\<dots> = ToUint8 (rd dat (((h - 1 - ?t div w) * w + ?t mod w) * 4 + bgra_pos (bgra_pos ?c)))"
    using bc by (rule bgra_bytes_nth)
  also have "(h - 1 - ?t div w) * w + ?t mod w = flip_index w h ?t"
    by (simp add: flip_index_def)
  also have "flip_index w h ?t = ?q" using q by (rule flip_index_involution)
  also have "?q * 4 + bgra_pos (bgra_pos ?c) = p" by simp
  also have "ToUint8 (rd dat p) = dat ! p"
    using p len by (simp add: rd_def ToUint8_def mult.commute mult.left_commute)
  finally show "?res ! p = dat ! p" .
qed

lemma decode_loop_zero: "decode_loop t d w h btt raw 0 s = s"
  by (subst decode_loop.simps) simp

lemma TGA_decode_zero_width:
  assumes "TGA_header buffer = Some (idLength, 2, 0, h, pixelDepth, descriptor)"
    and "18 + idLength \<le> length buffer"
  shows "TGAConverter_decode buffer = Inl InvalidStateError"
  using assms
  by (simp add: TGAConverter_decode_def Let_def new_ImageData_def decode_loop_zero)

text \<open>
  C7 (as stated: \<open>decode (encode buffer)\<close> reproduces every buffer of width and height at
  least 1). The header stores the width and the height in 16 bits, and \<open>setUint16\<close> keeps
  the low 16 bits: a buffer 65536 pixels wide and 1 pixel high is written with width 0,
  and \<open>decode\<close> of the result fails in the ImageData constructor.
\<close>

theorem TGA_roundtrip_wide_counterexample:
  "1 \<le> width \<lparr>width = 65536, height = 1, data = replicate 262144 0\<rparr>
   \<and> 1 \<le> height \<lparr>width = 65536, height = 1, data = replicate 262144 0\<rparr>
   \<and> length (data \<lparr>width = 65536, height = 1, data = replicate 262144 0\<rparr>) = 65536 * 1 * 4
   \<and> TGAConverter_decode
        (TGAConverter_encode \<lparr>width = 65536, height = 1, data = replicate 262144 0\<rparr>)
      = Inl InvalidStateError"
proof -
  let ?img = "\<lparr>width = 65536, height = 1, data = replicate 262144 (0::byte)\<rparr>"
  obtain B where enc: "TGAConverter_encode ?img = TGA_header_bytes 65536 1 @ B"
    using TGAConverter_encode_conv [of ?img] by simp
  have hd: "TGA_header (TGA_header_bytes 65536 1 @ B) = Some (0, 2, 0, 1, 32, 8)"
    by (simp add: TGA_header_encoded)
  have "TGAConverter_decode (TGA_header_bytes 65536 1 @ B) = Inl InvalidStateError"
    using hd by (rule TGA_decode_zero_width) simp
  then show ?thesis unfolding enc by simp
qed

text \<open>
  C7 (amended). For every pixel buffer with width and height between 1 and 65535 and
  width * height * 4 bytes of arbitrary content, \<open>decode (encode buffer)\<close> returns the
  buffer itself: the same width, the same height and the same bytes.
\<close>

theorem TGA_decode_encode_roundtrip:
  assumes "1 \<le> width img" and "width img < 65536"
    and "1 \<le> height img" and "height img < 65536"
    and "length (data img) = width img * height img * 4"
  shows "TGAConverter_decode (TGAConverter_encode img) = Inr img"
proof -
  let ?w = "width img" and ?h = "height img"
  let ?B = "concat (map (row_bytes (data img) ?w) (rev [0..<?h]))"
  have enc: "TGAConverter_encode img = TGA_header_bytes ?w ?h @ ?B"
    by (rule TGAConverter_encode_conv)
  have hd: "TGA_header (TGA_header_bytes ?w ?h @ ?B) = Some (0, 2, ?w, ?h, 32, 8)"
    using assms(2,4) by (simp add: TGA_header_encoded)
  have "TGAConverter_decode (TGA_header_bytes ?w ?h @ ?B)
        = Inr \<lparr>width = ?w, height = ?h,
               data = pixels (decode_loop 2 32 ?w ?h ((8::byte) AND 0x20 = 0)
                                (drop (18 + 0) (TGA_header_bytes ?w ?h @ ?B)) (?w * ?h)
                                \<lparr>pixels = replicate (?w * ?h * 4) 0, offset = 0, pixelIndex = 0\<rparr>)\<rparr>"
    using hd _ _ assms(1,3) by (rule TGA_decode_ok) simp_all
  also have "((8::byte) AND 0x20 = 0) = True" by simp
  also have "drop (18 + 0) (TGA_header_bytes ?w ?h @ ?B) = ?B" by simp
  also have "pixels (decode_loop 2 32 ?w ?h True ?B (?w * ?h)
                \<lparr>pixels = replicate (?w * ?h * 4) 0, offset = 0, pixelIndex = 0\<rparr>) = data img"
    using assms(1,3,5) by (rule TGA_roundtrip_pixels)
  finally show ?thesis unfolding enc by simp
qed

theorem TGA_decode_encode_roundtrip_witness:
  "1 \<le> width \<lparr>width = 2, height = 2, data = [1,2,3,4,5,6,7,8,9,10,11,12,13,14,15,16]\<rparr>
   \<and> width \<lparr>width = 2, height = 2, data = [1,2,3,4,5,6,7,8,9,10,11,12,13,14,15,16]\<rparr> < 65536
   \<and> 1 \<le> height \<lparr>width = 2, height = 2, data = [1,2,3,4,5,6,7,8,9,10,11,12,13,14,15,16]\<rparr>
   \<and> height \<lparr>width = 2, height = 2, data = [1,2,3,4,5,6,7,8,9,10,11,12,13,14,15,16]\<rparr> < 65536
   \<and> length (data \<lparr>width = 2, height = 2, data = [1,2,3,4,5,6,7,8,9,10,11,12,13,14,15,16]\<rparr>)
       = 2 * 2 * 4
   \<and> TGAConverter_decode
        (TGAConverter_encode
           \<lparr>width = 2, height = 2, data = [1,2,3,4,5,6,7,8,9,10,11,12,13,14,15,16]\<rparr>)
      = Inr \<lparr>width = 2, height = 2, data = [1,2,3,4,5,6,7,8,9,10,11,12,13,14,15,16]\<rparr>"
  using TGA_decode_encode_roundtrip
          [of "\<lparr>width = 2, height = 2, data = [1,2,3,4,5,6,7,8,9,10,11,12,13,14,15,16]\<rparr>"]
  by simp

section \<open>Properties of the BLP codec\<close>

subsection \<open>The channel swap\<close>

text \<open>
  On an array whose length is a multiple of 4, as the array of an ImageData is,
  \<open>swapRBChannels\<close> exchanges the bytes 0 and 2 of every pixel and leaves the bytes 1 and 3;
  applied twice it gives the image back.
\<close>

lemma swapRB_step:
  assumes "i + 4 \<le> length dat"
  shows "store (store dat (int i) (rd dat (i + 2))) (int i + 2) (rd dat i)
         = dat[i := dat ! (i + 2), i + 2 := dat ! i]"
proof -
  have n: "nat (int i + 2) = Suc (Suc i)" by simp
  show ?thesis
    using assms by (simp add: store_def rd_def ToUint8_def n)
qed

lemma swapRB_loop_length [simp]: "length (swapRB_loop i dat) = length dat"
proof (induction i dat rule: swapRB_loop.induct)
  case (1 i dat)
  show ?case
  proof (cases "i < length dat")
    case True
    then show ?thesis using "1" by (subst swapRB_loop.simps) (simp add: Let_def)
  next
    case False
    then show ?thesis by (subst swapRB_loop.simps) simp
  qed
qed

lemma swapRB_loop_nth:
  "4 dvd i \<Longrightarrow> 4 dvd length dat \<Longrightarrow> p < length dat \<Longrightarrow>
   swapRB_loop i dat ! p
   = (if i \<le> p then dat ! (4 * (p div 4) + bgra_pos (p mod 4)) else dat ! p)"
proof (induction i dat arbitrary: p rule: swapRB_loop.induct)
  case (1 i dat)
  show ?case
  proof (cases "i < length dat")
    case False
    then show ?thesis using "1.prems" by (subst swapRB_loop.simps) simp
  next
    case True
    have fit: "i + 4 \<le> length dat" using True "1.prems"(1,2) by presburger
    let ?d2 = "dat[i := dat ! (i + 2), i + 2 := dat ! i]"
    have unf: "swapRB_loop i dat = swapRB_loop (i + 4) ?d2"
      by (subst swapRB_loop.simps) (simp only: True if_True Let_def swapRB_step [OF fit])
    have ih: "swapRB_loop (i + 4) ?d2 ! p
              = (if i + 4 \<le> p then ?d2 ! (4 * (p div 4) + bgra_pos (p mod 4)) else ?d2 ! p)"
      using "1.IH" [OF True refl refl refl, of p, unfolded swapRB_step [OF fit]] "1.prems"
      by simp
    show ?thesis
    proof (cases "i + 4 \<le> p")
      case True
      have b: "bgra_pos (p mod 4) < 4" by simp
      have "4 * (p div 4) + bgra_pos (p mod 4) \<ge> i + 4"
        using True "1.prems"(1) by presburger
      then have "?d2 ! (4 * (p div 4) + bgra_pos (p mod 4)) = dat ! (4 * (p div 4) + bgra_pos (p mod 4))"
        by simp
      then show ?thesis using True unf ih by simp
    next
      case False
      show ?thesis
      proof (cases "i \<le> p")
        case le: True
        then have "p = i \<or> p = i + 1 \<or> p = i + 2 \<or> p = i + 3" using False by arith
        moreover have "4 * (i div 4) = i" using "1.prems"(1) by simp
        moreover have "(i + 1) div 4 = i div 4" "(i + 2) div 4 = i div 4" "(i + 3) div 4 = i div 4"
          "i mod 4 = 0" "(i + 1) mod 4 = 1" "(i + 2) mod 4 = 2" "(i + 3) mod 4 = 3"
          using "1.prems"(1) by presburger+
        ultimately show ?thesis
          using False le unf ih fit by (auto simp: bgra_pos_def)
      next
        case lt: False
        then show ?thesis using False unf ih by simp
      qed
    qed
  qed
qed

lemma swapRBChannels_data:
  assumes "4 dvd length (data img)" and "p < length (data img)"
  shows "data (swapRBChannels img) ! p = data img ! (4 * (p div 4) + bgra_pos (p mod 4))"
  using swapRB_loop_nth [of 0 "data img" p] assms by (simp add: swapRBChannels_def)

lemma swapRBChannels_size:
  "width (swapRBChannels img) = width img" "height (swapRBChannels img) = height img"
  "length (data (swapRBChannels img)) = length (data img)"
  by (simp_all add: swapRBChannels_def)

lemma swapRBChannels_involution:
  assumes "4 dvd length (data img)"
  shows "swapRBChannels (swapRBChannels img) = img"
proof -
  have "data (swapRBChannels (swapRBChannels img)) = data img"
  proof (rule nth_equalityI)
    show "length (data (swapRBChannels (swapRBChannels img))) = length (data img)"
      by (simp add: swapRBChannels_size)
    fix p assume "p < length (data (swapRBChannels (swapRBChannels img)))"
    then have p: "p < length (data img)" by (simp add: swapRBChannels_size)
    let ?q = "4 * (p div 4) + bgra_pos (p mod 4)"
    have b: "bgra_pos (p mod 4) < 4" by simp
    have q: "?q < length (data img)" using p assms b by presburger
    have qd: "?q div 4 = p div 4" and qm: "?q mod 4 = bgra_pos (p mod 4)" using b by presburger+
    have "data (swapRBChannels (swapRBChannels img)) ! p = data (swapRBChannels img) ! ?q"
      using assms p by (intro swapRBChannels_data) (simp_all add: swapRBChannels_size)
    also have "\<dots> = data img ! (4 * (?q div 4) + bgra_pos (?q mod 4))"
      using assms q by (rule swapRBChannels_data)
    also have "\<dots> = data img ! p" unfolding qd qm by simp
    finally show "data (swapRBChannels (swapRBChannels img)) ! p = data img ! p" .
  qed
  then show ?thesis by (simp add: swapRBChannels_def)
qed

subsection \<open>The decoder\<close>

lemma swapRB_loop_done: "length dat \<le> i \<Longrightarrow> swapRB_loop i dat = dat"
  by (subst swapRB_loop.simps) simp

lemma swapRBChannels_pixel:
  "swapRBChannels \<lparr>width = w, height = h, data = [r, g, b, a]\<rparr>
   = \<lparr>width = w, height = h, data = [b, g, r, a]\<rparr>"
  by (simp add: swapRBChannels_def swapRB_loop.simps [of 0] swapRB_loop_done
      rd_def store_def ToUint8_def Let_def)

text \<open>
  C1. \<open>BLPConverter.decode\<close> swaps R and B of the pixels the JPEG decoder returns for both
  magic values, BLP1 and BLP2: whenever the container has type 0, its JPEG stream lies
  inside the buffer and the JPEG decoder returns an image, the result is that image with
  the channels swapped. In particular a 1 by 1 image decoded as (10, 20, 30) comes out as
  (30, 20, 10), with its alpha unchanged; in general (the array of an ImageData has a
  multiple of 4 bytes) every byte of the result is the byte of the decoded image at the
  same pixel, with the channels 0 and 2 exchanged.
\<close>

theorem BLP_decode_swaps_unconditionally:
  assumes "BLP_magic buffer = Some (map of_char ''BLP1'')
           \<or> BLP_magic buffer = Some (map of_char ''BLP2'')"
    and "BLP_fields buffer = Some (0, w, h, off, sz)"
    and "BLP_fullJpeg buffer off sz = Some fullJpeg"
    and "imageToImageData fullJpeg = Inr img"
  shows "BLPConverter_decode imageToImageData buffer = Inr (swapRBChannels img)
         \<and> (img = \<lparr>width = 1, height = 1, data = [10, 20, 30, al]\<rparr> \<longrightarrow>
              BLPConverter_decode imageToImageData buffer
              = Inr \<lparr>width = 1, height = 1, data = [30, 20, 10, al]\<rparr>)
         \<and> (4 dvd length (data img) \<longrightarrow>
              (\<forall>p < length (data img).
                 data (swapRBChannels img) ! p
                 = data img ! (4 * (p div 4) + bgra_pos (p mod 4))))"
proof -
  have d: "BLPConverter_decode imageToImageData buffer = Inr (swapRBChannels img)"
    using assms by (auto simp: BLPConverter_decode_def)
  then show ?thesis by (simp add: swapRBChannels_pixel swapRBChannels_data)
qed

text \<open>
  A container with the magic BLP2: a header of 160 bytes with type 0, the payload at
  offset 160 with 3 bytes, no shared JPEG header.
\<close>

definition BLP2_sample :: "byte list" where
  "BLP2_sample = [0x42, 0x4C, 0x50, 0x32] @ replicate 24 0 @ [160, 0, 0, 0] @ replicate 60 0
                 @ [3, 0, 0, 0] @ replicate 64 0 @ [0xFF, 0xD8, 0xD9]"

lemma BLP2_sample_magic: "BLP_magic BLP2_sample = Some (map of_char ''BLP2'')"
  by (simp add: BLP_magic_def getUint8_def BLP2_sample_def)

lemma BLP2_sample_fields: "BLP_fields BLP2_sample = Some (0, 0, 0, 160, 3)"
  by (simp add: BLP_fields_def getUint32_def BLP2_sample_def nth_append)

lemma BLP2_sample_fullJpeg: "BLP_fullJpeg BLP2_sample 160 3 = Some [0xFF, 0xD8, 0xD9]"
  by (simp add: BLP_fullJpeg_def getUint32_def new_Uint8Array_def BLP2_sample_def nth_append)

theorem BLP_decode_swaps_unconditionally_witness:
  "BLP_magic BLP2_sample = Some (map of_char ''BLP2'')
   \<and> BLP_fields BLP2_sample = Some (0, 0, 0, 160, 3)
   \<and> BLP_fullJpeg BLP2_sample 160 3 = Some [0xFF, 0xD8, 0xD9]
   \<and> BLPConverter_decode (\<lambda>jpeg. Inr \<lparr>width = 1, height = 1, data = [10, 20, 30, 255]\<rparr>)
        BLP2_sample
      = Inr \<lparr>width = 1, height = 1, data = [30, 20, 10, 255]\<rparr>"
proof -
  let ?f = "\<lambda>jpeg :: byte list. (Inr \<lparr>width = 1, height = 1, data = [10, 20, 30, 255]\<rparr>
                                   :: js_error + ImageData)"
  note m = BLP2_sample_magic and f = BLP2_sample_fields and j = BLP2_sample_fullJpeg
  have i: "?f [0xFF, 0xD8, 0xD9] = Inr \<lparr>width = 1, height = 1, data = [10, 20, 30, 255]\<rparr>"
    by simp
  have "BLPConverter_decode ?f BLP2_sample
        = Inr \<lparr>width = 1, height = 1, data = [30, 20, 10, 255]\<rparr>"
    using BLP_decode_swaps_unconditionally
            [of BLP2_sample 0 0 160 3 _ ?f _ 255, OF disjI2 [OF m] f j i, THEN conjunct2, THEN conjunct1]
    by simp
  with m f j show ?thesis by simp
qed

text \<open>
  The copy of the decoder in src/unnamed/part_002 differs on the same container: with the
  magic BLP2 it returns the decoded pixels as they are.
\<close>

lemma BLP_decode_part_002_BLP2_not_swapped:
  "BLPConverter_decode_part_002 (\<lambda>jpeg. Inr \<lparr>width = 1, height = 1, data = [10, 20, 30, 255]\<rparr>)
     BLP2_sample
   = Inr \<lparr>width = 1, height = 1, data = [10, 20, 30, 255]\<rparr>"
proof -
  have "new_Uint8Array BLP2_sample 160 0 = Some []"
    by (simp add: new_Uint8Array_def BLP2_sample_def)
  moreover have "new_Uint8Array BLP2_sample 160 3 = Some [0xFF, 0xD8, 0xD9]"
    by (simp add: new_Uint8Array_def BLP2_sample_def)
  moreover have "getUint32 BLP2_sample 156 = Some 0"
    by (simp add: getUint32_def BLP2_sample_def nth_append)
  ultimately show ?thesis
    by (simp add: BLPConverter_decode_part_002_def BLP2_sample_magic BLP2_sample_fields)
qed

subsection \<open>The encoder\<close>

text \<open>The four bytes of a 32-bit value, least significant first.\<close>

definition u32le :: "nat \<Rightarrow> byte list" where
  "u32le v = [of_nat (v mod 256), of_nat ((v div 256) mod 256),
              of_nat ((v div 65536) mod 256), of_nat ((v div 16777216) mod 256)]"

lemma length_u32le [simp]: "length (u32le v) = 4"
  by (simp add: u32le_def)

lemma setUint8_conv:
  "i < length buf \<Longrightarrow> setUint8 buf i v = take i buf @ [of_nat v] @ drop (i + 1) buf"
  by (simp add: setUint8_def upd_conv_take_nth_drop)

lemma update4_conv:
  assumes "i + 4 \<le> length buf"
  shows "buf[i := a, i + 1 := b, i + 2 := c, i + 3 := d]
         = take i buf @ [a, b, c, d] @ drop (i + 4) buf"
  using assms
  by (intro nth_equalityI) (auto simp: nth_append nth_list_update nth_Cons' min_def)

lemma setUint32_conv:
  "i + 4 \<le> length buf \<Longrightarrow> setUint32 buf i v = take i buf @ u32le v @ drop (i + 4) buf"
  unfolding setUint32_def u32le_def by (rule update4_conv)

lemma replicate_4: "replicate 4 x = [x, x, x, x]"
  by (simp add: numeral_eq_Suc)

lemma u32le_0: "u32le 0 = replicate 4 0"
  by (simp add: u32le_def replicate_4)

lemma zero_loop_conv:
  assumes "b + 4 * Suc n \<le> length buf"
  shows "fold (\<lambda>i v. setUint32 v (b + i * 4) 0) [1..<Suc n] buf
         = take (b + 4) buf @ replicate (4 * n) 0 @ drop (b + 4 * Suc n) buf"
  using assms
proof (induction n)
  case 0
  then show ?case by simp
next
  case (Suc n)
  let ?v = "take (b + 4) buf @ replicate (4 * n) 0 @ drop (b + 4 * Suc n) buf"
  have ih: "fold (\<lambda>i v. setUint32 v (b + i * 4) 0) [1..<Suc n] buf = ?v"
    using Suc by simp
  have len: "length ?v = length buf" using Suc.prems by simp
  have fit: "(b + Suc n * 4) + 4 \<le> length ?v" using Suc.prems len by simp
  have tk: "take (b + Suc n * 4) ?v = take (b + 4) buf @ replicate (4 * n) 0"
    using Suc.prems by simp
  have dr: "drop (b + Suc n * 4 + 4) ?v = drop (b + 4 * Suc (Suc n)) buf"
    using Suc.prems by (simp add: algebra_simps)
  have "fold (\<lambda>i v. setUint32 v (b + i * 4) 0) [1..<Suc (Suc n)] buf
        = setUint32 ?v (b + Suc n * 4) 0"
    using ih by simp
  also have "\<dots> = take (b + Suc n * 4) ?v @ u32le 0 @ drop (b + Suc n * 4 + 4) ?v"
    by (rule setUint32_conv [OF fit])
  also have "\<dots> = take (b + 4) buf @ replicate (4 * Suc n) 0 @ drop (b + 4 * Suc (Suc n)) buf"
    unfolding tk dr u32le_0 by (simp add: replicate_add [symmetric])
  finally show ?case .
qed

lemma zero_loop_16:
  assumes "b + 64 \<le> length buf"
  shows "fold (\<lambda>i v. setUint32 v (b + i * 4) 0) [Suc 0..<16] buf
         = take (b + 4) buf @ replicate 60 0 @ drop (b + 64) buf"
proof -
  have "b + 4 * Suc 15 \<le> length buf" using assms by simp
  from zero_loop_conv [OF this] show ?thesis by simp
qed

lemma BLP_encode_header_bytes:
  "BLP_encode_header w h n
   = [0x42, 0x4C, 0x50, 0x31] @ u32le 0 @ u32le 8 @ u32le w @ u32le h @ u32le 5 @ u32le 1
     @ u32le 160 @ replicate 60 0 @ u32le n @ replicate 60 0 @ u32le 0"
  by (simp add: BLP_encode_header_def Let_def setUint8_conv setUint32_conv zero_loop_16)


lemma le32_value:
  "(n::nat) mod 256 + 256 * (n div 256 mod 256) + 65536 * (n div 65536 mod 256)
     + 16777216 * (n div 16777216 mod 256) = n mod 4294967296"
proof -
  have a: "n mod (256 * 16777216) = 256 * (n div 256 mod 16777216) + n mod 256"
    by (rule mod_mult2_eq)
  have b: "(n div 256) mod (256 * 65536) = 256 * (n div 256 div 256 mod 65536) + (n div 256) mod 256"
    by (rule mod_mult2_eq)
  have c: "(n div 65536) mod (256 * 256) = 256 * (n div 65536 div 256 mod 256) + (n div 65536) mod 256"
    by (rule mod_mult2_eq)
  have d1: "n div 256 div 256 = n div 65536" by (simp add: div_mult2_eq [symmetric])
  have d2: "n div 65536 div 256 = n div 16777216" by (simp add: div_mult2_eq [symmetric])
  show ?thesis using a b c unfolding d1 d2 by simp
qed

lemma getUint32_u32le:
  assumes "take 4 (drop k buf) = u32le v"
  shows "getUint32 buf k = Some (v mod 4294967296)"
proof -
  have "length (take 4 (drop k buf)) = 4" using assms by simp
  then have len: "k + 4 \<le> length buf" by simp
  have n: "\<And>j. j < 4 \<Longrightarrow> buf ! (k + j) = u32le v ! j"
  proof -
    fix j :: nat assume j: "j < 4"
    have "u32le v ! j = take 4 (drop k buf) ! j" using assms by simp
    also have "\<dots> = buf ! (k + j)" using j len by simp
    finally show "buf ! (k + j) = u32le v ! j" by simp
  qed
  have b: "buf ! k = of_nat (v mod 256)" "buf ! (k + 1) = of_nat (v div 256 mod 256)"
    "buf ! (k + 2) = of_nat (v div 65536 mod 256)" "buf ! (k + 3) = of_nat (v div 16777216 mod 256)"
    using n [of 0] n [of 1] n [of 2] n [of 3] by (simp_all add: u32le_def)
  show ?thesis
    using len unfolding getUint32_def b by (simp add: unat_of_nat le32_value)
qed

lemma getUint32_zero_region:
  assumes "length P \<le> k" and "k + 4 \<le> length P + m"
  shows "getUint32 (P @ replicate m 0 @ R) k = Some 0"
proof -
  have "\<And>j. j < 4 \<Longrightarrow> (P @ replicate m 0 @ R) ! (k + j) = 0"
  proof -
    fix j :: nat assume "j < 4"
    then have "k + j - length P < m" and "\<not> k + j < length P" using assms by arith+
    then show "(P @ replicate m 0 @ R) ! (k + j) = 0" by (simp add: nth_append)
  qed
  from this [of 0] this [of 1] this [of 2] this [of 3] show ?thesis
    using assms by (simp add: getUint32_def)
qed

text \<open>
  C8. When \<open>encode\<close> succeeds, its output is a header of 160 bytes followed immediately by
  the complete JPEG stream. Read back with little-endian 32-bit reads, the header holds
  the magic BLP1, compression type 0, alpha bits 8, the width and the height of the
  source canvas, subtype 5, has-mipmaps 1, mip offset 0 equal to 160 (where the payload
  starts), mip size 0 equal to the JPEG length, zero in the other 15 offset slots and the
  other 15 size slots, and shared JPEG header size 0. (The width, the height and the JPEG
  length are below 2^32, the range of the fields.)
\<close>

theorem BLP_encode_layout:
  assumes "canvas_context cv = Some bitmap"
    and "0 < canvas_width cv" and "0 < canvas_height cv"
    and "toBlob (swapRBChannels \<lparr>width = canvas_width cv, height = canvas_height cv, data = bitmap\<rparr>)
           quality = Some jpeg"
    and "canvas_width cv < 4294967296" and "canvas_height cv < 4294967296"
    and "length jpeg < 4294967296"
  shows "\<exists>out. BLPConverter_encode True toBlob cv quality = Inr out
           \<and> take 4 out = map of_char ''BLP1''
           \<and> getUint32 out 4 = Some 0
           \<and> getUint32 out 8 = Some 8
           \<and> getUint32 out 12 = Some (canvas_width cv)
           \<and> getUint32 out 16 = Some (canvas_height cv)
           \<and> getUint32 out 20 = Some 5
           \<and> getUint32 out 24 = Some 1
           \<and> getUint32 out 28 = Some 160
           \<and> (\<forall>i \<in> {1..<16}. getUint32 out (28 + i * 4) = Some 0)
           \<and> getUint32 out 92 = Some (length jpeg)
           \<and> (\<forall>i \<in> {1..<16}. getUint32 out (92 + i * 4) = Some 0)
           \<and> getUint32 out 156 = Some 0
           \<and> drop 160 out = jpeg"
proof -
  let ?w = "canvas_width cv" and ?h = "canvas_height cv" and ?n = "length jpeg"
  let ?out = "BLP_encode_header ?w ?h ?n @ jpeg"
  have enc: "BLPConverter_encode True toBlob cv quality = Inr ?out"
    using assms(1-4) by (simp add: BLPConverter_encode_def Let_def getImageData_def)
  have out: "?out = [0x42, 0x4C, 0x50, 0x31] @ u32le 0 @ u32le 8 @ u32le ?w @ u32le ?h @ u32le 5
                    @ u32le 1 @ u32le 160 @ replicate 60 0 @ u32le ?n @ replicate 60 0 @ u32le 0 @ jpeg"
    by (simp add: BLP_encode_header_bytes)
  have magic: "take 4 ?out = map of_char ''BLP1''" unfolding out by simp
  have f4: "getUint32 ?out 4 = Some 0" unfolding out by (subst getUint32_u32le [of _ _ 0]) simp_all
  have f8: "getUint32 ?out 8 = Some 8" unfolding out by (subst getUint32_u32le [of _ _ 8]) simp_all
  have f12: "getUint32 ?out 12 = Some ?w"
    unfolding out using assms(5) by (subst getUint32_u32le [of _ _ ?w]) simp_all
  have f16: "getUint32 ?out 16 = Some ?h"
    unfolding out using assms(6) by (subst getUint32_u32le [of _ _ ?h]) simp_all
  have f20: "getUint32 ?out 20 = Some 5" unfolding out by (subst getUint32_u32le [of _ _ 5]) simp_all
  have f24: "getUint32 ?out 24 = Some 1" unfolding out by (subst getUint32_u32le [of _ _ 1]) simp_all
  have f28: "getUint32 ?out 28 = Some 160" unfolding out by (subst getUint32_u32le [of _ _ 160]) simp_all
  have f92: "getUint32 ?out 92 = Some ?n"
    unfolding out using assms(7) by (subst getUint32_u32le [of _ _ ?n]) simp_all
  have f156: "getUint32 ?out 156 = Some 0" unfolding out by (subst getUint32_u32le [of _ _ 0]) simp_all
  have z1: "\<forall>i \<in> {1..<16}. getUint32 ?out (28 + i * 4) = Some 0"
  proof
    fix i :: nat assume "i \<in> {1..<16}"
    then have i: "1 \<le> i" "i < 16" by simp_all
    let ?P = "[0x42, 0x4C, 0x50, 0x31] @ u32le 0 @ u32le 8 @ u32le ?w @ u32le ?h @ u32le 5
              @ u32le 1 @ u32le 160"
    have "?out = ?P @ replicate 60 0 @ (u32le ?n @ replicate 60 0 @ u32le 0 @ jpeg)"
      unfolding out by simp
    moreover have "getUint32 (?P @ replicate 60 0 @ (u32le ?n @ replicate 60 0 @ u32le 0 @ jpeg))
                     (28 + i * 4) = Some 0"
      using i by (intro getUint32_zero_region) simp_all
    ultimately show "getUint32 ?out (28 + i * 4) = Some 0" by simp
  qed
  have z2: "\<forall>i \<in> {1..<16}. getUint32 ?out (92 + i * 4) = Some 0"
  proof
    fix i :: nat assume "i \<in> {1..<16}"
    then have i: "1 \<le> i" "i < 16" by simp_all
    let ?P = "[0x42, 0x4C, 0x50, 0x31] @ u32le 0 @ u32le 8 @ u32le ?w @ u32le ?h @ u32le 5
              @ u32le 1 @ u32le 160 @ replicate 60 0 @ u32le ?n"
    have "?out = ?P @ replicate 60 0 @ (u32le 0 @ jpeg)"
      unfolding out by simp
    moreover have "getUint32 (?P @ replicate 60 0 @ (u32le 0 @ jpeg)) (92 + i * 4) = Some 0"
      using i by (intro getUint32_zero_region) simp_all
    ultimately show "getUint32 ?out (92 + i * 4) = Some 0" by simp
  qed
  have payload: "drop 160 ?out = jpeg" unfolding out by simp
  show ?thesis
    using enc magic f4 f8 f12 f16 f20 f24 f28 z1 f92 z2 f156 payload by blast
qed


lemma length4: "Suc (Suc (Suc (Suc 0))) = 4"
  by simp

theorem BLP_encode_layout_witness:
  "canvas_context \<lparr>canvas_width = 1, canvas_height = 1, canvas_context = Some [10, 20, 30, 255]\<rparr>
     = Some [10, 20, 30, 255]
   \<and> (\<exists>out. BLPConverter_encode True (\<lambda>img q. Some [0xFF, 0xD8, 0xFF, 0xD9])
               \<lparr>canvas_width = 1, canvas_height = 1, canvas_context = Some [10, 20, 30, 255]\<rparr>
               (85 :: nat) = Inr out
           \<and> take 4 out = map of_char ''BLP1''
           \<and> getUint32 out 4 = Some 0
           \<and> getUint32 out 8 = Some 8
           \<and> getUint32 out 12 = Some 1
           \<and> getUint32 out 16 = Some 1
           \<and> getUint32 out 20 = Some 5
           \<and> getUint32 out 24 = Some 1
           \<and> getUint32 out 28 = Some 160
           \<and> (\<forall>i \<in> {1..<16}. getUint32 out (28 + i * 4) = Some 0)
           \<and> getUint32 out 92 = Some 4
           \<and> (\<forall>i \<in> {1..<16}. getUint32 out (92 + i * 4) = Some 0)
           \<and> getUint32 out 156 = Some 0
           \<and> drop 160 out = [0xFF, 0xD8, 0xFF, 0xD9])"
  using BLP_encode_layout
    [where cv = "\<lparr>canvas_width = 1, canvas_height = 1, canvas_context = Some [10, 20, 30, 255]\<rparr>"
       and bitmap = "[10, 20, 30, 255]"
       and toBlob = "\<lambda>img q. Some [0xFF, 0xD8, 0xFF, 0xD9]"
       and quality = "85 :: nat"
       and jpeg = "[0xFF, 0xD8, 0xFF, 0xD9]"]
  by (simp add: length4)

section \<open>Properties of the channel formulas\<close>

subsection \<open>Conversions and clamping without side effects\<close>

text \<open>
  A primitive value is any value but an object. The number that
  \<open>Math.min(255, Math.max(0, v))\<close> gives for a primitive value \<open>v\<close> when \<open>Math.max\<close> and
  \<open>Math.min\<close> are the built-ins, or the TypeError of the conversion.
\<close>

definition primitive :: "jsval \<Rightarrow> bool" where
  "primitive v = (case v of Object n \<Rightarrow> False | _ \<Rightarrow> True)"

definition clamped :: "'x engine \<Rightarrow> jsval \<Rightarrow> thrown + jsnum" where
  "clamped eng v =
     (case ToNumber_primitive eng v of
        Inl t \<Rightarrow> Inl t
      | Inr n \<Rightarrow> Inr (builtin_min (Finite 255) (builtin_max (Finite 0) n)))"

lemma primitive_simps [simp]:
  "primitive Undefined" "primitive Null" "primitive (Boolean b)" "primitive (Number n)"
  "primitive (BigInt k)" "primitive (String s)" "primitive (Symbol y)" "\<not> primitive (Object z)"
  by (simp_all add: primitive_def)

lemma ToNumber_of_primitive:
  "primitive v \<Longrightarrow> ToNumber eng v w = (ToNumber_primitive eng v, w)"
  by (cases v) (simp_all add: ToNumber_def)

lemma ToNumber_of_Number [simp]: "ToNumber eng (Number n) w = (Inr n, w)"
  by (simp add: ToNumber_def ToNumber_primitive_def)

lemma primitive_rdv [simp]: "primitive (rdv dat j)"
  by (simp add: rdv_def split: option.splits)

lemma assign_Number [simp]:
  "assign eng dat i (Number n) w = (Inr (dat[i := ToUint8Clamp n]), w)"
  by (simp add: assign_def list_update_beyond)

lemma clamp_assign_builtin:
  assumes "Math_max (Math w) = Builtin" and "Math_min (Math w) = Builtin" and "primitive v"
  shows "clamp_assign eng dat i v w =
           ((case clamped eng v of
               Inl t \<Rightarrow> Inl t
             | Inr n \<Rightarrow> Inr (dat[i := ToUint8Clamp n])), w)"
  using assms
  by (simp add: clamp_assign_def call_math_def builtin_call_def Let_def
      ToNumber_of_primitive clamped_def split: sum.splits)

lemma clamped_thrown:
  "clamped eng v = Inl t \<Longrightarrow> t = Message (Some (TypeError_message eng v))"
  by (cases v) (simp_all add: clamped_def ToNumber_primitive_def)

subsection \<open>The frame of the loop\<close>

lemma assign_frame:
  assumes "assign eng dat i v w = (Inr d, w')"
  shows "length d = length dat" and "\<And>j. j \<noteq> i \<Longrightarrow> d ! j = dat ! j"
  using assms by (auto simp: assign_def split: prod.splits sum.splits if_splits)

lemma clamp_assign_frame:
  assumes "clamp_assign eng dat i v w = (Inr d, w')"
  shows "length d = length dat" and "\<And>j. j \<noteq> i \<Longrightarrow> d ! j = dat ! j"
proof -
  obtain n w2 where "assign eng dat i n w2 = (Inr d, w')"
    using assms
    by (auto simp: clamp_assign_def Let_def split: prod.splits outcome.splits)
  then show "length d = length dat" and "\<And>j. j \<noteq> i \<Longrightarrow> d ! j = dat ! j"
    by (rule assign_frame)+
qed

lemma clamp_assign_frame':
  "clamp_assign eng dat i v w = (Inr d, w') \<Longrightarrow>
   length d = length dat \<and> (\<forall>j. j \<noteq> i \<longrightarrow> d ! j = dat ! j)"
  using clamp_assign_frame [of eng dat i v w d w'] by simp

lemma apply_pixel_frame:
  assumes "apply_pixel eng shader i dat w = (d1, w1, e)"
  shows "length d1 = length dat"
    and "\<And>j. j < i \<or> i + 4 \<le> j \<Longrightarrow> d1 ! j = dat ! j"
proof -
  have "length d1 = length dat \<and> (\<forall>j. j < i \<or> i + 4 \<le> j \<longrightarrow> d1 ! j = dat ! j)"
    using assms unfolding apply_pixel_def Let_def
    by (auto split: prod.splits sum.splits dest!: clamp_assign_frame')
  then show "length d1 = length dat" and "\<And>j. j < i \<or> i + 4 \<le> j \<Longrightarrow> d1 ! j = dat ! j"
    by blast+
qed

lemma apply_loop_step:
  assumes "i < len" and "apply_pixel eng shader i dat w = (d1, w1, e1)"
  shows "apply_loop eng shader len i dat w
         = (case e1 of Some t \<Rightarrow> (d1, w1, Some t)
            | None \<Rightarrow> apply_loop eng shader len (i + 4) d1 w1)"
  using assms by (subst apply_loop.simps) (simp split: option.splits)

lemma apply_loop_done: "\<not> i < len \<Longrightarrow> apply_loop eng shader len i dat w = (dat, w, None)"
  by (subst apply_loop.simps) simp

lemma apply_loop_frame:
  "apply_loop eng shader len i dat w = (dat', w', e) \<Longrightarrow>
   length dat' = length dat \<and> (\<forall>j < i. dat' ! j = dat ! j)"
proof (induction eng shader len i dat w arbitrary: dat' w' e rule: apply_loop.induct)
  case (1 eng shader len i dat w)
  show ?case
  proof (cases "i < len")
    case False
    with "1.prems" show ?thesis by (simp add: apply_loop_done)
  next
    case True
    obtain d1 w1 e1 where ap: "apply_pixel eng shader i dat w = (d1, w1, e1)"
      by (metis prod_cases3)
    note fr = apply_pixel_frame [OF ap]
    show ?thesis
    proof (cases e1)
      case (Some t)
      then have "dat' = d1" using "1.prems" apply_loop_step [OF True ap] by simp
      then show ?thesis using fr by simp
    next
      case None
      then have lp: "apply_loop eng shader len (i + 4) d1 w1 = (dat', w', e)"
        using "1.prems" apply_loop_step [OF True ap] by simp
      have ih: "length dat' = length d1 \<and> (\<forall>j < i + 4. dat' ! j = d1 ! j)"
        using "1.IH" [OF True ap [symmetric] refl None lp] .
      show ?thesis using ih fr by simp
    qed
  qed
qed

subsection \<open>The loop when the compiled function has no side effect\<close>

text \<open>
  The channel \<open>c\<close> of the four values the compiled function returns; the call of the
  compiled function for the pixel that starts at position \<open>t\<close> of an array, and what it
  returns. The call is quiet when it leaves the state as it is and returns primitive
  values.
\<close>

definition chan :: "nat \<Rightarrow> jsval \<times> jsval \<times> jsval \<times> jsval \<Rightarrow> jsval" where
  "chan c out = (case out of (nr, ng, nb, na) \<Rightarrow> [nr, ng, nb, na] ! c)"

definition pixel_call ::
  "(jsval \<Rightarrow> jsval \<Rightarrow> jsval \<Rightarrow> jsval \<Rightarrow> jsval \<Rightarrow> 'x world
      \<Rightarrow> (jsval \<times> jsval \<times> jsval \<times> jsval) \<times> 'x world)
   \<Rightarrow> 'x world \<Rightarrow> byte list \<Rightarrow> nat \<Rightarrow> (jsval \<times> jsval \<times> jsval \<times> jsval) \<times> 'x world" where
  "pixel_call shader w dat t =
     shader (rdv dat t) (rdv dat (t + 1)) (rdv dat (t + 2)) (rdv dat (t + 3))
       (Math_object (Math w)) w"

definition pixel_out ::
  "(jsval \<Rightarrow> jsval \<Rightarrow> jsval \<Rightarrow> jsval \<Rightarrow> jsval \<Rightarrow> 'x world
      \<Rightarrow> (jsval \<times> jsval \<times> jsval \<times> jsval) \<times> 'x world)
   \<Rightarrow> 'x world \<Rightarrow> byte list \<Rightarrow> nat \<Rightarrow> jsval \<times> jsval \<times> jsval \<times> jsval" where
  "pixel_out shader w dat t = fst (pixel_call shader w dat t)"

definition quiet ::
  "(jsval \<Rightarrow> jsval \<Rightarrow> jsval \<Rightarrow> jsval \<Rightarrow> jsval \<Rightarrow> 'x world
      \<Rightarrow> (jsval \<times> jsval \<times> jsval \<times> jsval) \<times> 'x world)
   \<Rightarrow> 'x world \<Rightarrow> byte list \<Rightarrow> nat \<Rightarrow> bool" where
  "quiet shader w dat t =
     (snd (pixel_call shader w dat t) = w
      \<and> (\<forall>c < 4. primitive (chan c (pixel_out shader w dat t))))"

lemma chan_simps [simp]:
  "chan 0 (nr, ng, nb, na) = nr" "chan (Suc 0) (nr, ng, nb, na) = ng"
  "chan 2 (nr, ng, nb, na) = nb" "chan 3 (nr, ng, nb, na) = na"
  by (simp_all add: chan_def numeral_eq_Suc)

lemma less_4_cases: "c < 4 \<Longrightarrow> c = 0 \<or> c = Suc 0 \<or> c = 2 \<or> c = (3::nat)"
  by arith

lemma quietD:
  assumes "quiet shader w dat t" and "pixel_out shader w dat t = (nr, ng, nb, na)"
  shows "pixel_call shader w dat t = ((nr, ng, nb, na), w)"
    and "primitive nr" and "primitive ng" and "primitive nb" and "primitive na"
proof -
  show "pixel_call shader w dat t = ((nr, ng, nb, na), w)"
    using assms by (simp add: quiet_def pixel_out_def prod_eq_iff)
  have p: "\<forall>c < 4. primitive (chan c (nr, ng, nb, na))"
    using assms by (simp add: quiet_def)
  show "primitive nr" using p [rule_format, of 0] by simp
  show "primitive ng" using p [rule_format, of "Suc 0"] by simp
  show "primitive nb" using p [rule_format, of 2] by simp
  show "primitive na" using p [rule_format, of 3] by simp
qed

lemma apply_pixel_unfold:
  assumes mx: "Math_max (Math w) = Builtin" and mn: "Math_min (Math w) = Builtin"
    and q: "quiet shader w dat i"
    and out: "pixel_out shader w dat i = (nr, ng, nb, na)"
  shows "apply_pixel eng shader i dat w =
     (case clamped eng nr of
        Inl t \<Rightarrow> (dat, w, Some t)
      | Inr v0 \<Rightarrow>
          (case clamped eng ng of
             Inl t \<Rightarrow> (dat[i := ToUint8Clamp v0], w, Some t)
           | Inr v1 \<Rightarrow>
               (case clamped eng nb of
                  Inl t \<Rightarrow> (dat[i := ToUint8Clamp v0, i + 1 := ToUint8Clamp v1], w, Some t)
                | Inr v2 \<Rightarrow>
                    (case clamped eng na of
                       Inl t \<Rightarrow>
                         (dat[i := ToUint8Clamp v0, i + 1 := ToUint8Clamp v1,
                              i + 2 := ToUint8Clamp v2], w, Some t)
                     | Inr v3 \<Rightarrow>
                         (dat[i := ToUint8Clamp v0, i + 1 := ToUint8Clamp v1,
                              i + 2 := ToUint8Clamp v2, i + 3 := ToUint8Clamp v3], w, None)))))"
proof -
  note d = quietD [OF q out]
  have call: "shader (rdv dat i) (rdv dat (i + 1)) (rdv dat (i + 2)) (rdv dat (i + 3))
                (Math_object (Math w)) w = ((nr, ng, nb, na), w)"
    using d(1) by (simp add: pixel_call_def)
  show ?thesis
    unfolding apply_pixel_def Let_def call
    by (simp add: clamp_assign_builtin [OF mx mn] d split: sum.splits)
qed

text \<open>
  What one pass of the loop body leaves at the four positions of its pixel: the stored,
  clamped output, or the byte that was there when the body was left before the store.
\<close>

lemma apply_pixel_stored:
  assumes ap: "apply_pixel eng shader i dat w = (d1, w1, e)"
    and mx: "Math_max (Math w) = Builtin" and mn: "Math_min (Math w) = Builtin"
    and q: "quiet shader w dat i"
    and c: "c < 4" and r: "i + c < length dat"
  shows "(d1 ! (i + c) = dat ! (i + c)
          \<or> (\<exists>v. clamped eng (chan c (pixel_out shader w dat i)) = Inr v
                  \<and> d1 ! (i + c) = ToUint8Clamp v))
         \<and> (e = None \<longrightarrow>
              (\<exists>v. clamped eng (chan c (pixel_out shader w dat i)) = Inr v
                   \<and> d1 ! (i + c) = ToUint8Clamp v))"
proof -
  obtain nr ng nb na where out: "pixel_out shader w dat i = (nr, ng, nb, na)"
    by (metis prod_cases4)
  note u = ap [unfolded apply_pixel_unfold [OF mx mn q out]]
  from less_4_cases [OF c] show ?thesis
  proof (elim disjE)
    assume "c = 0"
    then show ?thesis
      using u r by (auto simp: out split: sum.splits)
  next
    assume "c = Suc 0"
    then show ?thesis
      using u r by (auto simp: out split: sum.splits)
  next
    assume "c = 2"
    then show ?thesis
      using u r by (auto simp: out split: sum.splits)
  next
    assume "c = 3"
    then show ?thesis
      using u r by (auto simp: out split: sum.splits)
  qed
qed

lemma apply_pixel_world:
  assumes ap: "apply_pixel eng shader i dat w = (d1, w1, e)"
    and mx: "Math_max (Math w) = Builtin" and mn: "Math_min (Math w) = Builtin"
    and q: "quiet shader w dat i"
  shows "w1 = w" and "\<forall>t. e = Some t \<longrightarrow> (\<exists>v. t = Message (Some (TypeError_message eng v)))"
proof -
  obtain nr ng nb na where out: "pixel_out shader w dat i = (nr, ng, nb, na)"
    by (metis prod_cases4)
  note u = ap [unfolded apply_pixel_unfold [OF mx mn q out]]
  show "w1 = w" using u by (auto split: sum.splits)
  show "\<forall>t. e = Some t \<longrightarrow> (\<exists>v. t = Message (Some (TypeError_message eng v)))"
    using u by (auto split: sum.splits dest: clamped_thrown)
qed

lemma apply_pixel_no_error:
  assumes mx: "Math_max (Math w) = Builtin" and mn: "Math_min (Math w) = Builtin"
    and q: "quiet shader w dat i"
    and conv: "\<forall>c < 4. \<exists>x. ToNumber_primitive eng (chan c (pixel_out shader w dat i)) = Inr x"
  shows "snd (snd (apply_pixel eng shader i dat w)) = None"
proof -
  obtain nr ng nb na where out: "pixel_out shader w dat i = (nr, ng, nb, na)"
    by (metis prod_cases4)
  have "\<exists>x. ToNumber_primitive eng nr = Inr x" "\<exists>x. ToNumber_primitive eng ng = Inr x"
    "\<exists>x. ToNumber_primitive eng nb = Inr x" "\<exists>x. ToNumber_primitive eng na = Inr x"
    using conv [rule_format, of 0] conv [rule_format, of "Suc 0"]
      conv [rule_format, of 2] conv [rule_format, of 3]
    by (simp_all add: out)
  then show ?thesis
    by (auto simp: apply_pixel_unfold [OF mx mn q out] clamped_def split: sum.splits)
qed

lemma pixel_call_cong:
  assumes "length d1 = length d" and "\<And>j. t \<le> j \<Longrightarrow> d1 ! j = d ! j"
  shows "pixel_call shader w d1 t = pixel_call shader w d t"
  using assms by (simp add: pixel_call_def rdv_def rd_def)

lemma apply_pixel_later_pixel:
  assumes ap: "apply_pixel eng shader i dat w = (d1, w1, e1)" and "i + 4 \<le> t"
  shows "pixel_call shader w' d1 t = pixel_call shader w' dat t"
proof (rule pixel_call_cong)
  show "length d1 = length dat" by (rule apply_pixel_frame(1) [OF ap])
  fix j assume "t \<le> j"
  then have "j < i \<or> i + 4 \<le> j" using assms(2) by simp
  then show "d1 ! j = dat ! j" by (rule apply_pixel_frame(2) [OF ap])
qed

lemma apply_pixel_later_quiet:
  assumes ap: "apply_pixel eng shader i dat w = (d1, w1, e1)" and "i + 4 \<le> t"
  shows "quiet shader w' d1 t = quiet shader w' dat t"
    and "pixel_out shader w' d1 t = pixel_out shader w' dat t"
  using apply_pixel_later_pixel [OF assms, of w'] by (simp_all add: quiet_def pixel_out_def)

lemma dvd_step: "i \<le> t \<Longrightarrow> t \<noteq> i \<Longrightarrow> 4 dvd (t - i) \<Longrightarrow> i + 4 \<le> t \<and> 4 dvd (t - (i + 4))"
  for i t :: nat
  by presburger

lemma quiet_later:
  assumes ap: "apply_pixel eng shader i dat w = (d1, w1, e1)"
    and q: "\<forall>t. i \<le> t \<and> t < len \<and> 4 dvd (t - i) \<longrightarrow> quiet shader w dat t"
  shows "\<forall>t. i + 4 \<le> t \<and> t < len \<and> 4 dvd (t - (i + 4)) \<longrightarrow> quiet shader w d1 t"
proof (intro allI impI)
  fix t assume t: "i + 4 \<le> t \<and> t < len \<and> 4 dvd (t - (i + 4))"
  then have "4 dvd (t - i)" by presburger
  then have "quiet shader w dat t" using q t by simp
  moreover have "i + 4 \<le> t" using t by simp
  ultimately show "quiet shader w d1 t"
    using apply_pixel_later_quiet(1) [OF ap, of t w] by simp
qed

lemma apply_loop_world:
  "apply_loop eng shader len i dat w = (dat', w', e) \<Longrightarrow>
   Math_max (Math w) = Builtin \<Longrightarrow> Math_min (Math w) = Builtin \<Longrightarrow>
   (\<forall>t. i \<le> t \<and> t < len \<and> 4 dvd (t - i) \<longrightarrow> quiet shader w dat t) \<Longrightarrow>
   w' = w \<and> (\<forall>t. e = Some t \<longrightarrow> (\<exists>v. t = Message (Some (TypeError_message eng v))))"
proof (induction eng shader len i dat w arbitrary: dat' w' e rule: apply_loop.induct)
  case (1 eng shader len i dat w)
  show ?case
  proof (cases "i < len")
    case False
    with "1.prems" show ?thesis by (simp add: apply_loop_done)
  next
    case True
    obtain d1 w1 e1 where ap: "apply_pixel eng shader i dat w = (d1, w1, e1)"
      by (metis prod_cases3)
    have q: "quiet shader w dat i" using "1.prems"(4) True by simp
    note pw = apply_pixel_world [OF ap "1.prems"(2,3) q]
    show ?thesis
    proof (cases e1)
      case (Some t)
      then have "w' = w1" "e = e1" using "1.prems"(1) apply_loop_step [OF True ap] by simp_all
      then show ?thesis using pw by simp
    next
      case None
      then have lp: "apply_loop eng shader len (i + 4) d1 w1 = (dat', w', e)"
        using "1.prems"(1) apply_loop_step [OF True ap] by simp
      have q1: "\<forall>t. i + 4 \<le> t \<and> t < len \<and> 4 dvd (t - (i + 4)) \<longrightarrow> quiet shader w1 d1 t"
        using quiet_later [OF ap "1.prems"(4)] pw(1) by simp
      have "w' = w1 \<and> (\<forall>t. e = Some t \<longrightarrow> (\<exists>v. t = Message (Some (TypeError_message eng v))))"
        using "1.IH" [OF True ap [symmetric] refl None lp] "1.prems"(2,3) q1 pw(1) by simp
      then show ?thesis using pw(1) by simp
    qed
  qed
qed

lemma apply_loop_stored:
  "apply_loop eng shader len i dat w = (dat', w', e) \<Longrightarrow> len = length dat \<Longrightarrow>
   Math_max (Math w) = Builtin \<Longrightarrow> Math_min (Math w) = Builtin \<Longrightarrow>
   (\<forall>t. i \<le> t \<and> t < len \<and> 4 dvd (t - i) \<longrightarrow> quiet shader w dat t) \<Longrightarrow>
   i \<le> t \<Longrightarrow> 4 dvd (t - i) \<Longrightarrow> c < 4 \<Longrightarrow> t + c < len \<Longrightarrow>
   (dat' ! (t + c) = dat ! (t + c)
    \<or> (\<exists>v. clamped eng (chan c (pixel_out shader w dat t)) = Inr v
            \<and> dat' ! (t + c) = ToUint8Clamp v))
   \<and> (e = None \<longrightarrow>
        (\<exists>v. clamped eng (chan c (pixel_out shader w dat t)) = Inr v
             \<and> dat' ! (t + c) = ToUint8Clamp v))"
proof (induction eng shader len i dat w arbitrary: dat' w' e rule: apply_loop.induct)
  case (1 eng shader len i dat w)
  have lt: "i < len" using "1.prems"(6,9) by simp
  obtain d1 w1 e1 where ap: "apply_pixel eng shader i dat w = (d1, w1, e1)"
    by (metis prod_cases3)
  note fr = apply_pixel_frame [OF ap]
  note step = apply_loop_step [OF lt ap]
  have q: "quiet shader w dat i" using "1.prems"(5) lt by simp
  note pw = apply_pixel_world [OF ap "1.prems"(3,4) q]
  show ?case
  proof (cases "t = i")
    case True
    have ic: "i + c < length dat" using "1.prems"(2,9) True by simp
    note st = apply_pixel_stored [OF ap "1.prems"(3,4) q "1.prems"(8) ic]
    show ?thesis
    proof (cases e1)
      case (Some msg)
      then have "dat' = d1" "e = Some msg" using "1.prems"(1) step by simp_all
      then show ?thesis using st True by simp
    next
      case None
      then have lp: "apply_loop eng shader len (i + 4) d1 w1 = (dat', w', e)"
        using "1.prems"(1) step by simp
      have "i + c < i + 4" using "1.prems"(8) by simp
      then have "dat' ! (i + c) = d1 ! (i + c)"
        using apply_loop_frame [OF lp] by blast
      then show ?thesis using st None True by simp
    qed
  next
    case False
    then have ge: "i + 4 \<le> t" and dv: "4 dvd (t - (i + 4))"
      using dvd_step [OF "1.prems"(6) False "1.prems"(7)] by simp_all
    have po: "pixel_out shader w d1 t = pixel_out shader w dat t"
      using ap ge by (rule apply_pixel_later_quiet(2))
    have same: "d1 ! (t + c) = dat ! (t + c)"
      using ge by (intro fr(2)) simp
    show ?thesis
    proof (cases e1)
      case (Some msg)
      then have "dat' = d1" "e = Some msg" using "1.prems"(1) step by simp_all
      then show ?thesis using same by simp
    next
      case None
      then have lp: "apply_loop eng shader len (i + 4) d1 w1 = (dat', w', e)"
        using "1.prems"(1) step by simp
      have l1: "len = length d1" using fr(1) "1.prems"(2) by simp
      have q1: "\<forall>t. i + 4 \<le> t \<and> t < len \<and> 4 dvd (t - (i + 4)) \<longrightarrow> quiet shader w1 d1 t"
        using quiet_later [OF ap "1.prems"(5)] pw(1) by simp
      have m1: "Math_max (Math w1) = Builtin" "Math_min (Math w1) = Builtin"
        using "1.prems"(3,4) pw(1) by simp_all
      note ih = "1.IH" [OF lt ap [symmetric] refl None lp l1 m1 q1 ge dv "1.prems"(8) "1.prems"(9)]
      show ?thesis using ih unfolding pw(1) po same .
    qed
  qed
qed

lemma apply_loop_no_error:
  "len = length dat \<Longrightarrow>
   Math_max (Math w) = Builtin \<Longrightarrow> Math_min (Math w) = Builtin \<Longrightarrow>
   (\<forall>t. i \<le> t \<and> t < len \<and> 4 dvd (t - i) \<longrightarrow>
        quiet shader w dat t
        \<and> (\<forall>c < 4. \<exists>x. ToNumber_primitive eng (chan c (pixel_out shader w dat t)) = Inr x)) \<Longrightarrow>
   snd (snd (apply_loop eng shader len i dat w)) = None"
proof (induction eng shader len i dat w rule: apply_loop.induct)
  case (1 eng shader len i dat w)
  show ?case
  proof (cases "i < len")
    case False
    then show ?thesis by (simp add: apply_loop_done)
  next
    case True
    obtain d1 w1 e1 where ap: "apply_pixel eng shader i dat w = (d1, w1, e1)"
      by (metis prod_cases3)
    note fr = apply_pixel_frame [OF ap]
    have q: "quiet shader w dat i" using "1.prems"(4) True by simp
    have cv: "\<forall>c < 4. \<exists>x. ToNumber_primitive eng (chan c (pixel_out shader w dat i)) = Inr x"
      using "1.prems"(4) True by simp
    note pw = apply_pixel_world [OF ap "1.prems"(2,3) q]
    have "snd (snd (apply_pixel eng shader i dat w)) = None"
      using "1.prems"(2,3) q cv by (rule apply_pixel_no_error)
    then have e1: "e1 = None" using ap by simp
    have l1: "len = length d1" using fr(1) "1.prems"(1) by simp
    have m1: "Math_max (Math w1) = Builtin" "Math_min (Math w1) = Builtin"
      using "1.prems"(2,3) pw(1) by simp_all
    have conv: "\<forall>t. i + 4 \<le> t \<and> t < len \<and> 4 dvd (t - (i + 4)) \<longrightarrow>
                  quiet shader w1 d1 t
                  \<and> (\<forall>c < 4. \<exists>x. ToNumber_primitive eng (chan c (pixel_out shader w1 d1 t)) = Inr x)"
    proof (intro allI impI)
      fix t assume t: "i + 4 \<le> t \<and> t < len \<and> 4 dvd (t - (i + 4))"
      have d: "4 dvd (t - i)" using t by presburger
      have ge: "i + 4 \<le> t" using t by simp
      have a: "quiet shader w dat t
               \<and> (\<forall>c < 4. \<exists>x. ToNumber_primitive eng (chan c (pixel_out shader w dat t)) = Inr x)"
        using "1.prems"(4) t d by simp
      show "quiet shader w1 d1 t
            \<and> (\<forall>c < 4. \<exists>x. ToNumber_primitive eng (chan c (pixel_out shader w1 d1 t)) = Inr x)"
        using a apply_pixel_later_quiet [OF ap ge, of w] pw(1) by simp
    qed
    have "snd (snd (apply_loop eng shader len (i + 4) d1 w1)) = None"
      using "1.IH" [OF True ap [symmetric] refl e1 l1 m1 conv] .
    then show ?thesis using apply_loop_step [OF True ap] e1 by simp
  qed
qed

subsection \<open>Clamping\<close>

text \<open>
  The byte \<open>s\<close> is the number \<open>x\<close> clamped into [0, 255], saturating: 0 for a value at or
  below 0 (and for NaN, which the array stores as 0), 255 for a value at or above 255, and
  within the range the value rounded to a nearest integer.
\<close>

definition saturated :: "jsnum \<Rightarrow> byte \<Rightarrow> bool" where
  "saturated x s =
     (case x of
        NaN \<Rightarrow> s = 0
      | NegInf \<Rightarrow> s = 0
      | PosInf \<Rightarrow> s = 255
      | Finite y \<Rightarrow>
          (y \<le> 0 \<longrightarrow> s = 0) \<and> (255 \<le> y \<longrightarrow> s = 255)
          \<and> (0 \<le> y \<and> y \<le> 255 \<longrightarrow> \<bar>real (unat s) - y\<bar> \<le> 1 / 2))"

lemma unat_byte_of_int:
  assumes "0 \<le> k" and "k < 256"
  shows "unat (word_of_int k :: byte) = nat k"
  using assms
  by (simp add: unat_eq_nat_uint uint_word_of_int take_bit_eq_mod)

lemma unat_byte_less: "unat (b :: byte) < 256"
  using unsigned_less [of b, where ?'a = nat] by simp

lemma ToUint8Clamp_round:
  assumes "0 < y" and "y < 255"
  shows "\<bar>real (unat (ToUint8Clamp (Finite y))) - y\<bar> \<le> 1 / 2"
proof -
  define f where "f = \<lfloor>y\<rfloor>"
  have f0: "0 \<le> f" using assms(1) by (simp add: f_def)
  have f1: "f < 255" using assms(2) by (simp add: f_def floor_less_iff)
  have lo: "of_int f \<le> y" by (simp add: f_def)
  have hi: "y < of_int f + 1" by (simp add: f_def)
  have uf: "real (unat (word_of_int f :: byte)) = of_int f"
    using f0 f1 by (simp add: unat_byte_of_int)
  have "real (unat (word_of_int (f + 1) :: byte)) = real (nat (f + 1))"
    using f0 f1 by (subst unat_byte_of_int) simp_all
  then have uf1: "real (unat (word_of_int (f + 1) :: byte)) = of_int f + 1"
    using f0 by simp
  have "ToUint8Clamp (Finite y) =
          (if of_int f + 1 / 2 < y then word_of_int (f + 1)
           else if y < of_int f + 1 / 2 then word_of_int f
           else if even f then word_of_int f else word_of_int (f + 1))"
    using assms unfolding ToUint8Clamp_def Let_def f_def by simp
  then consider "ToUint8Clamp (Finite y) = word_of_int f" "y \<le> of_int f + 1 / 2"
    | "ToUint8Clamp (Finite y) = word_of_int (f + 1)" "of_int f + 1 / 2 \<le> y"
    by (auto split: if_splits)
  then show ?thesis
  proof cases
    case 1
    have "real (unat (ToUint8Clamp (Finite y))) = of_int f" unfolding 1(1) by (rule uf)
    then show ?thesis using lo 1(2) by simp
  next
    case 2
    have "real (unat (ToUint8Clamp (Finite y))) = of_int f + 1" unfolding 2(1) by (rule uf1)
    then show ?thesis using hi 2(2) by simp
  qed
qed


lemma clamped_saturated:
  assumes "ToNumber_primitive eng v = Inr x"
  shows "\<exists>n. clamped eng v = Inr n \<and> n = builtin_min (Finite 255) (builtin_max (Finite 0) x)
             \<and> saturated x (ToUint8Clamp n)"
proof (cases x)
  case NaN
  then show ?thesis using assms by (simp add: clamped_def saturated_def ToUint8Clamp_def)
next
  case NegInf
  then show ?thesis using assms by (simp add: clamped_def saturated_def ToUint8Clamp_def)
next
  case PosInf
  then show ?thesis using assms by (simp add: clamped_def saturated_def ToUint8Clamp_def)
next
  case (Finite y)
  have c: "clamped eng v = Inr (Finite (min 255 (max 0 y)))"
    using assms Finite by (simp add: clamped_def)
  have low: "y \<le> 0 \<Longrightarrow> ToUint8Clamp (Finite (min 255 (max 0 y))) = 0"
    by (simp add: ToUint8Clamp_def max_def)
  have high: "255 \<le> y \<Longrightarrow> ToUint8Clamp (Finite (min 255 (max 0 y))) = 255"
    by (simp add: ToUint8Clamp_def min_def max_def)
  have mid: "\<bar>real (unat (ToUint8Clamp (Finite (min 255 (max 0 y))))) - y\<bar> \<le> 1 / 2"
    if "0 \<le> y" "y \<le> 255"
  proof -
    have e: "min 255 (max 0 y) = y" using that by simp
    show ?thesis
    proof (cases "y = 0 \<or> y = 255")
      case True
      then show ?thesis by (auto simp: ToUint8Clamp_def)
    next
      case False
      then have "0 < y" "y < 255" using that by simp_all
      then show ?thesis unfolding e by (rule ToUint8Clamp_round)
    qed
  qed
  show ?thesis
    using c low high mid Finite assms by (simp add: saturated_def clamped_def)
qed

lemma ToUint8Clamp_byte:
  "ToUint8Clamp (Finite (min 255 (max 0 (real (unat (b :: byte)))))) = b"
proof -
  define n where "n = unat b"
  define r where "r = real n"
  have n: "n < 256" unfolding n_def by (rule unat_byte_less)
  have r0: "0 \<le> r" and r255: "r \<le> 255" using n by (simp_all add: r_def)
  have e: "min 255 (max 0 r) = r" using r0 r255 by simp
  have fl: "\<lfloor>r\<rfloor> = int n" by (simp add: r_def)
  have bn: "(word_of_nat n :: byte) = b" by (simp add: n_def)
  consider "n = 0" | "n = 255" | "0 < n" "n < 255" using n by linarith
  then have "ToUint8Clamp (Finite r) = b"
  proof cases
    case 1
    then have "b = 0" by (simp add: n_def unat_eq_0)
    then show ?thesis using 1 by (simp add: ToUint8Clamp_def r_def)
  next
    case 2
    then have "b = 255" by (simp add: n_def word_unat_eq_iff)
    then show ?thesis using 2 by (simp add: ToUint8Clamp_def r_def)
  next
    case 3
    then have "\<not> real n \<le> 0" "\<not> 255 \<le> real n" by simp_all
    then show ?thesis unfolding r_def by (simp add: ToUint8Clamp_def Let_def bn)
  qed
  then have "ToUint8Clamp (Finite (min 255 (max 0 r))) = b" by (simp only: e)
  then show ?thesis unfolding r_def n_def .
qed

lemma clamped_rdv:
  assumes "j < length dat"
  shows "clamped eng (rdv dat j) = Inr (Finite (min 255 (max 0 (real (unat (dat ! j))))))"
    and "clamped eng (rdv dat j) = Inr v \<Longrightarrow> ToUint8Clamp v = dat ! j"
proof -
  have "rdv dat j = Number (Finite (real (unat (dat ! j))))"
    using assms by (simp only: rdv_def rd_def if_True option.case)
  then show c: "clamped eng (rdv dat j) = Inr (Finite (min 255 (max 0 (real (unat (dat ! j))))))"
    by (simp add: clamped_def ToNumber_primitive_def)
  assume "clamped eng (rdv dat j) = Inr v"
  then have "v = Finite (min 255 (max 0 (real (unat (dat ! j)))))" using c by simp
  then show "ToUint8Clamp v = dat ! j" by (simp only: ToUint8Clamp_byte)
qed

subsection \<open>Formulas without side effects\<close>

text \<open>
  The variables hold primitive values (the parameter \<open>Math\<close> apart, which holds the
  \<open>Math\<close> object). An expression has no side effect, for a \<open>Math\<close> object \<open>m\<close>, when its
  evaluation with such variables, in any state whose \<open>Math\<close> object is \<open>m\<close>, assigns no
  variable, leaves the state as it is, and yields a primitive value if it yields one.
\<close>

definition primitive_env :: "env \<Rightarrow> bool" where
  "primitive_env env = (\<forall>x v. env x = Some v \<and> x \<noteq> ''Math'' \<longrightarrow> primitive v)"

definition no_side_effect :: "math_ns \<Rightarrow> 'x gexpr \<Rightarrow> bool" where
  "no_side_effect m e =
     (\<forall>env w. primitive_env env \<and> Math w = m \<longrightarrow>
        snd (e env w) = (env, w) \<and> (\<forall>v. fst (e env w) = Value v \<longrightarrow> primitive v))"

text \<open>
  The result of the \<open>try\<close> block for the pixel that starts at position \<open>t\<close> of an array:
  \<open>None\<close> when an expression throws.
\<close>

definition pixel_try ::
  "'x gexpr \<Rightarrow> 'x gexpr \<Rightarrow> 'x gexpr \<Rightarrow> 'x gexpr \<Rightarrow> 'x world \<Rightarrow> byte list \<Rightarrow> nat
   \<Rightarrow> (jsval \<times> jsval \<times> jsval \<times> jsval) option" where
  "pixel_try er eg eb ea w dat t =
     fst (try_block er eg eb ea
            (params (rdv dat t) (rdv dat (t + 1)) (rdv dat (t + 2)) (rdv dat (t + 3))
               (Math_object (Math w))) w)"

lemma no_side_effectD:
  assumes "no_side_effect m e" and "primitive_env env" and "Math w = m"
  obtains t where "e env w = (Throws t, env, w)"
    | v where "e env w = (Value v, env, w)" and "primitive v"
proof (cases "fst (e env w)")
  case (Throws t)
  moreover have "snd (e env w) = (env, w)" using assms by (simp add: no_side_effect_def)
  ultimately have "e env w = (Throws t, env, w)" by (simp add: prod_eq_iff)
  then show ?thesis by (rule that(1))
next
  case (Value v)
  moreover have "snd (e env w) = (env, w)" using assms by (simp add: no_side_effect_def)
  ultimately have a: "e env w = (Value v, env, w)" by (simp add: prod_eq_iff)
  have "primitive v" using assms Value by (simp add: no_side_effect_def)
  with a show ?thesis by (rule that(2))
qed

lemma primitive_env_update:
  "primitive_env env \<Longrightarrow> primitive v \<Longrightarrow> primitive_env (env(x \<mapsto> v))"
  by (simp add: primitive_env_def)

lemma primitive_env_params:
  "primitive r \<Longrightarrow> primitive g \<Longrightarrow> primitive b \<Longrightarrow> primitive a \<Longrightarrow>
   primitive_env (params r g b a m)"
  by (simp add: primitive_env_def params_def)

lemma try_block_no_side_effect:
  assumes er: "no_side_effect m er" and eg: "no_side_effect m eg"
    and eb: "no_side_effect m eb" and ea: "no_side_effect m ea"
    and env: "primitive_env env0" and w: "Math w = m"
  shows "\<exists>res env'. try_block er eg eb ea env0 w = (res, env', w)
            \<and> env' ''r'' = env0 ''r'' \<and> env' ''g'' = env0 ''g''
            \<and> env' ''b'' = env0 ''b'' \<and> env' ''a'' = env0 ''a''
            \<and> (\<forall>out. res = Some out \<longrightarrow> (\<forall>c < 4. primitive (chan c out)))"
proof -
  from er env w show ?thesis
  proof (cases rule: no_side_effectD)
    case (1 t)
    then show ?thesis by (simp add: try_block_def)
  next
    case (2 nr)
    note r = 2
    have env1: "primitive_env (env0(''nr'' \<mapsto> nr))"
      using env r(2) by (rule primitive_env_update)
    from eg env1 w show ?thesis
    proof (cases rule: no_side_effectD)
      case (1 t)
      then show ?thesis using r by (simp add: try_block_def)
    next
      case (2 ng)
      note g = 2
      have env2: "primitive_env (env0(''nr'' \<mapsto> nr, ''ng'' \<mapsto> ng))"
        using env1 g(2) by (rule primitive_env_update)
      from eb env2 w show ?thesis
      proof (cases rule: no_side_effectD)
        case (1 t)
        then show ?thesis using r g by (simp add: try_block_def)
      next
        case (2 nb)
        note b = 2
        have env3: "primitive_env (env0(''nr'' \<mapsto> nr, ''ng'' \<mapsto> ng, ''nb'' \<mapsto> nb))"
          using env2 b(2) by (rule primitive_env_update)
        from ea env3 w show ?thesis
        proof (cases rule: no_side_effectD)
          case (1 t)
          then show ?thesis using r g b by (simp add: try_block_def)
        next
          case (2 na)
          have "\<forall>c < 4. primitive (chan c (nr, ng, nb, na))"
            using r(2) g(2) b(2) 2(2) by (auto dest!: less_4_cases)
          then show ?thesis using r g b 2 by (simp add: try_block_def)
        qed
      qed
    qed
  qed
qed

text \<open>
  The compiled function of expressions without side effects: it returns the result of the
  \<open>try\<close> block or, when an expression throws, its four arguments, and leaves the state
  as it is.
\<close>

lemma compiledShader_no_side_effect:
  assumes er: "no_side_effect m er" and eg: "no_side_effect m eg"
    and eb: "no_side_effect m eb" and ea: "no_side_effect m ea"
    and w: "Math w = m"
    and p: "primitive r" "primitive g" "primitive b" "primitive a"
  shows "compiledShader er eg eb ea r g b a mo w =
           ((case fst (try_block er eg eb ea (params r g b a mo) w) of
               None \<Rightarrow> (r, g, b, a)
             | Some out \<Rightarrow> out), w)"
    and "\<forall>c < 4. primitive (chan c (fst (compiledShader er eg eb ea r g b a mo w)))"
proof -
  have env: "primitive_env (params r g b a mo)" using p by (rule primitive_env_params)
  obtain res env' where
    t: "try_block er eg eb ea (params r g b a mo) w = (res, env', w)"
    and v: "env' ''r'' = params r g b a mo ''r''" "env' ''g'' = params r g b a mo ''g''"
      "env' ''b'' = params r g b a mo ''b''" "env' ''a'' = params r g b a mo ''a''"
    and pr: "\<forall>out. res = Some out \<longrightarrow> (\<forall>c < 4. primitive (chan c out))"
    using try_block_no_side_effect [OF er eg eb ea env w] by blast
  have vars: "variable env' ''r'' = r" "variable env' ''g'' = g"
    "variable env' ''b'' = b" "variable env' ''a'' = a"
    using v by (simp_all add: variable_def params_def)
  show eq: "compiledShader er eg eb ea r g b a mo w =
           ((case fst (try_block er eg eb ea (params r g b a mo) w) of
               None \<Rightarrow> (r, g, b, a)
             | Some out \<Rightarrow> out), w)"
    by (cases res) (simp_all add: compiledShader_def t vars)
  show "\<forall>c < 4. primitive (chan c (fst (compiledShader er eg eb ea r g b a mo w)))"
  proof (cases res)
    case None
    then show ?thesis unfolding eq using p by (auto simp: t dest!: less_4_cases)
  next
    case (Some out)
    then show ?thesis unfolding eq using pr by (simp add: t)
  qed
qed

lemma quiet_no_side_effect:
  assumes "no_side_effect (Math w) er" and "no_side_effect (Math w) eg"
    and "no_side_effect (Math w) eb" and "no_side_effect (Math w) ea"
  shows "quiet (compiledShader er eg eb ea) w dat t"
    and "pixel_out (compiledShader er eg eb ea) w dat t =
           (case pixel_try er eg eb ea w dat t of
              None \<Rightarrow> (rdv dat t, rdv dat (t + 1), rdv dat (t + 2), rdv dat (t + 3))
            | Some out \<Rightarrow> out)"
proof -
  note c = compiledShader_no_side_effect [OF assms refl,
      of "rdv dat t" "rdv dat (t + 1)" "rdv dat (t + 2)" "rdv dat (t + 3)" "Math_object (Math w)",
      OF primitive_rdv primitive_rdv primitive_rdv primitive_rdv]
  show "quiet (compiledShader er eg eb ea) w dat t"
    unfolding quiet_def pixel_out_def pixel_call_def using c by simp
  show "pixel_out (compiledShader er eg eb ea) w dat t =
           (case pixel_try er eg eb ea w dat t of
              None \<Rightarrow> (rdv dat t, rdv dat (t + 1), rdv dat (t + 2), rdv dat (t + 3))
            | Some out \<Rightarrow> out)"
    unfolding pixel_out_def pixel_call_def pixel_try_def using c(1) by simp
qed

subsection \<open>applyFormulas\<close>

lemma applyFormulas_failed:
  assumes "compile (parseExpr eng) formulas = Inl msg"
  shows "ImageProcessor_applyFormulas eng w originalData formulas
         = (w\<lparr>arrays := arrays w @ [arrays w ! ref_data originalData]\<rparr>,
            Inr \<lparr>result_data = \<lparr>ref_width = ref_width originalData,
                                 ref_height = ref_height originalData,
                                 ref_data = length (arrays w)\<rparr>,
                 result_error = Some msg\<rparr>)"
  using assms by (simp add: ImageProcessor_applyFormulas_def finish_def Let_def)

text \<open>
  The call for a formula set without side effects, when \<open>Math.max\<close> and \<open>Math.min\<close> are
  the built-ins: the state is left as it is but for the new array, and the error is the
  one of the loop.
\<close>

lemma applyFormulas_loop:
  assumes comp: "compile (parseExpr eng) formulas = Inr (er, eg, eb, ea)"
    and ne: "no_side_effect (Math w) er" "no_side_effect (Math w) eg"
      "no_side_effect (Math w) eb" "no_side_effect (Math w) ea"
    and mx: "Math_max (Math w) = Builtin" and mn: "Math_min (Math w) = Builtin"
    and lp: "apply_loop eng (compiledShader er eg eb ea)
               (length (arrays w ! ref_data originalData)) 0
               (arrays w ! ref_data originalData) w = (dat', w', e)"
  shows "w' = w"
    and "\<exists>m. ImageProcessor_applyFormulas eng w originalData formulas
           = (w\<lparr>arrays := arrays w @ [dat']\<rparr>,
              Inr \<lparr>result_data = \<lparr>ref_width = ref_width originalData,
                                   ref_height = ref_height originalData,
                                   ref_data = length (arrays w)\<rparr>,
                   result_error = m\<rparr>)
           \<and> (m = None) = (e = None)"
proof -
  have q: "\<forall>t. 0 \<le> t \<and> t < length (arrays w ! ref_data originalData) \<and> 4 dvd (t - 0)
             \<longrightarrow> quiet (compiledShader er eg eb ea) w (arrays w ! ref_data originalData) t"
    using quiet_no_side_effect(1) [OF ne] by simp
  have a: "w' = w \<and> (\<forall>t. e = Some t \<longrightarrow> (\<exists>v. t = Message (Some (TypeError_message eng v))))"
    using apply_loop_world [OF lp mx mn q] .
  then show "w' = w" by simp
  show "\<exists>m. ImageProcessor_applyFormulas eng w originalData formulas
           = (w\<lparr>arrays := arrays w @ [dat']\<rparr>,
              Inr \<lparr>result_data = \<lparr>ref_width = ref_width originalData,
                                   ref_height = ref_height originalData,
                                   ref_data = length (arrays w)\<rparr>,
                   result_error = m\<rparr>)
           \<and> (m = None) = (e = None)"
  proof (cases e)
    case None
    then show ?thesis
      using a by (simp add: ImageProcessor_applyFormulas_def Let_def comp lp finish_def)
  next
    case (Some t)
    then obtain v where "t = Message (Some (TypeError_message eng v))" using a by blast
    then show ?thesis
      using a Some by (simp add: ImageProcessor_applyFormulas_def Let_def comp lp finish_def)
  qed
qed

lemma chan_inputs:
  assumes "c < 4"
  shows "chan c (rdv dat t, rdv dat (t + 1), rdv dat (t + 2), rdv dat (t + 3)) = rdv dat (t + c)"
  using less_4_cases [OF assms] by (elim disjE) simp_all

lemma aligned: "4 dvd (t - 0) \<longleftrightarrow> (\<exists>k. t = 4 * k)" for t :: nat
  by (auto simp: dvd_def)

text \<open>
  The whole call for a formula set without side effects, when \<open>Math.max\<close> and \<open>Math.min\<close>
  are the built-ins: the result with its array \<open>dat'\<close>, and what the loop has left at each
  position of it.
\<close>

lemma applyFormulas_pure:
  assumes comp: "compile (parseExpr eng) formulas = Inr (er, eg, eb, ea)"
    and ne: "no_side_effect (Math w) er" "no_side_effect (Math w) eg"
      "no_side_effect (Math w) eb" "no_side_effect (Math w) ea"
    and mx: "Math_max (Math w) = Builtin" and mn: "Math_min (Math w) = Builtin"
  shows "\<exists>dat' m.
           ImageProcessor_applyFormulas eng w originalData formulas
             = (w\<lparr>arrays := arrays w @ [dat']\<rparr>,
                Inr \<lparr>result_data = \<lparr>ref_width = ref_width originalData,
                                     ref_height = ref_height originalData,
                                     ref_data = length (arrays w)\<rparr>,
                     result_error = m\<rparr>)
           \<and> length dat' = length (arrays w ! ref_data originalData)
           \<and> (\<forall>k c. c < 4 \<and> 4 * k + c < length (arrays w ! ref_data originalData) \<longrightarrow>
                 (dat' ! (4 * k + c) = arrays w ! ref_data originalData ! (4 * k + c)
                  \<or> (\<exists>v. clamped eng (chan c (pixel_out (compiledShader er eg eb ea) w
                                                (arrays w ! ref_data originalData) (4 * k))) = Inr v
                          \<and> dat' ! (4 * k + c) = ToUint8Clamp v))
                 \<and> (m = None \<longrightarrow>
                      (\<exists>v. clamped eng (chan c (pixel_out (compiledShader er eg eb ea) w
                                                (arrays w ! ref_data originalData) (4 * k))) = Inr v
                          \<and> dat' ! (4 * k + c) = ToUint8Clamp v)))
           \<and> ((\<forall>k. 4 * k < length (arrays w ! ref_data originalData) \<longrightarrow>
                  (\<forall>c < 4. \<exists>x. ToNumber_primitive eng
                                  (chan c (pixel_out (compiledShader er eg eb ea) w
                                             (arrays w ! ref_data originalData) (4 * k))) = Inr x))
                \<longrightarrow> m = None)"
proof -
  let ?src = "arrays w ! ref_data originalData"
  let ?sh = "compiledShader er eg eb ea"
  obtain dat' w' e where lp: "apply_loop eng ?sh (length ?src) 0 ?src w = (dat', w', e)"
    by (metis prod_cases3)
  obtain m where
    R: "ImageProcessor_applyFormulas eng w originalData formulas
          = (w\<lparr>arrays := arrays w @ [dat']\<rparr>,
             Inr \<lparr>result_data = \<lparr>ref_width = ref_width originalData,
                                  ref_height = ref_height originalData,
                                  ref_data = length (arrays w)\<rparr>,
                  result_error = m\<rparr>)"
    and me: "(m = None) = (e = None)"
    using applyFormulas_loop(2) [OF comp ne mx mn lp] by blast
  have q: "\<forall>t. 0 \<le> t \<and> t < length ?src \<and> 4 dvd (t - 0) \<longrightarrow> quiet ?sh w ?src t"
    using quiet_no_side_effect(1) [OF ne] by simp
  have len: "length dat' = length ?src" using apply_loop_frame [OF lp] by simp
  have st: "(dat' ! (4 * k + c) = ?src ! (4 * k + c)
             \<or> (\<exists>v. clamped eng (chan c (pixel_out ?sh w ?src (4 * k))) = Inr v
                     \<and> dat' ! (4 * k + c) = ToUint8Clamp v))
            \<and> (m = None \<longrightarrow>
                 (\<exists>v. clamped eng (chan c (pixel_out ?sh w ?src (4 * k))) = Inr v
                     \<and> dat' ! (4 * k + c) = ToUint8Clamp v))"
    if "c < 4" "4 * k + c < length ?src" for k c
    using apply_loop_stored [OF lp refl mx mn q, of "4 * k" c] that me by simp
  have noerr: "m = None"
    if conv: "\<forall>k. 4 * k < length ?src \<longrightarrow>
                (\<forall>c < 4. \<exists>x. ToNumber_primitive eng (chan c (pixel_out ?sh w ?src (4 * k))) = Inr x)"
  proof -
    have "\<forall>t. 0 \<le> t \<and> t < length ?src \<and> 4 dvd (t - 0) \<longrightarrow>
            quiet ?sh w ?src t
            \<and> (\<forall>c < 4. \<exists>x. ToNumber_primitive eng (chan c (pixel_out ?sh w ?src t)) = Inr x)"
    proof (intro allI impI)
      fix t assume t: "0 \<le> t \<and> t < length ?src \<and> 4 dvd (t - 0)"
      then obtain k where k: "t = 4 * k" by (auto simp: dvd_def)
      show "quiet ?sh w ?src t
            \<and> (\<forall>c < 4. \<exists>x. ToNumber_primitive eng (chan c (pixel_out ?sh w ?src t)) = Inr x)"
        using q t conv k by simp
    qed
    then have "snd (snd (apply_loop eng ?sh (length ?src) 0 ?src w)) = None"
      by (rule apply_loop_no_error [OF refl mx mn])
    then show ?thesis using lp me by simp
  qed
  show ?thesis
    using R len st noerr by blast
qed

text \<open>
  C5. When the formula set fails to compile (\<open>new Function\<close> throws a SyntaxError),
  \<open>applyFormulas\<close> returns the message of the error together with a buffer of the same
  width and height whose bytes are those of the input: no pixel has been transformed.
\<close>

theorem applyFormulas_compile_failure:
  assumes "compile (parseExpr eng) formulas = Inl msg"
  shows "\<exists>res. snd (ImageProcessor_applyFormulas eng w originalData formulas) = Inr res
           \<and> result_error res = Some msg
           \<and> arrays (fst (ImageProcessor_applyFormulas eng w originalData formulas))
               ! ref_data (result_data res)
             = arrays w ! ref_data originalData
           \<and> ref_width (result_data res) = ref_width originalData
           \<and> ref_height (result_data res) = ref_height originalData"
  by (simp add: applyFormulas_failed [OF assms])

text \<open>
  A formula set without side effects, for a \<open>Math\<close> object: it does not compile, or its
  four expressions have no side effect.
\<close>

definition without_side_effects :: "'x engine \<Rightarrow> math_ns \<Rightarrow> ChannelFormulas \<Rightarrow> bool" where
  "without_side_effects eng m formulas =
     (case compile (parseExpr eng) formulas of
        Inl msg \<Rightarrow> True
      | Inr (er, eg, eb, ea) \<Rightarrow>
          no_side_effect m er \<and> no_side_effect m eg \<and> no_side_effect m eb
          \<and> no_side_effect m ea)"




subsection \<open>A fragment of an engine\<close>

text \<open>
  For concrete runs: a state whose only global variable is a counter \<open>n\<close> (0 when it is
  not defined) and, in the runs that use it, a variable \<open>img\<close> holding the ImageData whose
  array is at address 0, and the evaluation of a few expressions, as JavaScript evaluates
  them when r, g, b and a hold finite numbers (on other values the fragment throws):
  \<^item> a variable (a ReferenceError when it is not in scope, as for \<open>x\<close>);
  \<^item> \<open>r*2\<close> and the BigInt literal \<open>1n\<close>;
  \<^item> \<open>r > 100 ? e1 : e2\<close>;
  \<^item> \<open>(g = 99, x)\<close>, which assigns the parameter g and then throws;
  \<^item> \<open>(Math.min = function(){ return 7 }, 400)\<close>, which replaces \<open>Math.min\<close> by a function
    (the object 1) and yields 400;
  \<^item> \<open>(img.data[0] = 77, r)\<close>, which writes to the array at address 0;
  \<^item> \<open>globalThis.n = (globalThis.n || 0) + 1\<close>.

  Any other text is a syntax error.
\<close>

definition ReferenceError :: "string \<Rightarrow> thrown" where
  "ReferenceError x = Message (Some (x @ '' is not defined''))"

definition var_ref :: "string \<Rightarrow> 'x gexpr" where
  "var_ref x =
     (\<lambda>env w. (case env x of None \<Rightarrow> Throws (ReferenceError x) | Some v \<Rightarrow> Value v, env, w))"

definition double_r :: "'x gexpr" where
  "double_r =
     (\<lambda>env w. (case env ''r'' of
                  Some (Number (Finite x)) \<Rightarrow> Value (Number (Finite (x * 2)))
                | _ \<Rightarrow> Throws (Message None), env, w))"

definition bigint_one :: "'x gexpr" where
  "bigint_one = (\<lambda>env w. (Value (BigInt 1), env, w))"

definition if_r_above_100 :: "'x gexpr \<Rightarrow> 'x gexpr \<Rightarrow> 'x gexpr" where
  "if_r_above_100 e1 e2 =
     (\<lambda>env w. case env ''r'' of
                 Some (Number (Finite x)) \<Rightarrow> if 100 < x then e1 env w else e2 env w
               | _ \<Rightarrow> (Throws (Message None), env, w))"

definition assign_g_then_x :: "'x gexpr" where
  "assign_g_then_x = (\<lambda>env w. var_ref ''x'' (env(''g'' \<mapsto> Number (Finite 99))) w)"

definition replace_min :: "'x gexpr" where
  "replace_min =
     (\<lambda>env w. (Value (Number (Finite 400)), env,
                w\<lparr>Math := (Math w)\<lparr>Math_min := Replaced (Object 1)\<rparr>\<rparr>))"

definition write_input :: "'x gexpr" where
  "write_input =
     (\<lambda>env w. var_ref ''r'' env (w\<lparr>arrays := (arrays w)[0 := (arrays w ! 0)[0 := 77]]\<rparr>))"

definition count_calls :: "nat gexpr" where
  "count_calls =
     (\<lambda>env w. (Value (Number (Finite (real (outside w + 1)))), env,
                w\<lparr>outside := outside w + 1\<rparr>))"

definition sample_parseExpr :: "string \<Rightarrow> string + nat gexpr" where
  "sample_parseExpr s =
     (if s \<in> {''r'', ''g'', ''b'', ''a'', ''x''} then Inr (var_ref s)
      else if s = ''r*2'' then Inr double_r
      else if s = ''1n'' then Inr bigint_one
      else if s = ''r > 100 ? x : r*2'' then Inr (if_r_above_100 (var_ref ''x'') double_r)
      else if s = ''r > 100 ? x : 1n'' then Inr (if_r_above_100 (var_ref ''x'') bigint_one)
      else if s = ''(g = 99, x)'' then Inr assign_g_then_x
      else if s = ''(Math.min = function(){ return 7 }, 400)'' then Inr replace_min
      else if s = ''(img.data[0] = 77, r)'' then Inr write_input
      else if s = ''globalThis.n = (globalThis.n || 0) + 1'' then Inr count_calls
      else Inl ''SyntaxError'')"

definition sample_engine :: "nat engine" where
  "sample_engine =
     \<lparr>parseExpr = sample_parseExpr,
      call = (\<lambda>f args w. if f = Object 1 then (Value (Number (Finite 7)), w)
                           else (Throws (Message (Some ''not a function'')), w)),
      ToPrimitive = (\<lambda>n w. (Throws (Message (Some ''Cannot convert object to primitive value'')), w)),
      StringToNumber = (\<lambda>s. NaN),
      TypeError_message = (\<lambda>v. ''Cannot convert a BigInt value to a number'')\<rparr>"

definition sample_world :: "byte list list \<Rightarrow> nat world" where
  "sample_world arrs =
     \<lparr>arrays = arrs,
      Math = \<lparr>Math_object = Object 0, Math_max = Builtin, Math_min = Builtin,
              Math_other = (\<lambda>x. Undefined)\<rparr>,
      outside = 0\<rparr>"

lemma sample_world_simps [simp]:
  "arrays (sample_world arrs) = arrs"
  "Math_max (Math (sample_world arrs)) = Builtin"
  "Math_min (Math (sample_world arrs)) = Builtin"
  "Math_object (Math (sample_world arrs)) = Object 0"
  "outside (sample_world arrs) = 0"
  by (simp_all add: sample_world_def)

lemma sample_engine_simps [simp]:
  "TypeError_message sample_engine v = ''Cannot convert a BigInt value to a number''"
  "call sample_engine (Object 1) args w = (Value (Number (Finite 7)), w)"
  "call sample_engine (Object (Suc 0)) args w = (Value (Number (Finite 7)), w)"
  by (simp_all add: sample_engine_def)

lemma parseExpr_sample: "parseExpr sample_engine = sample_parseExpr"
  by (simp add: sample_engine_def)

lemma no_side_effect_var_ref: "x \<noteq> ''Math'' \<Longrightarrow> no_side_effect m (var_ref x)"
  by (auto simp: no_side_effect_def var_ref_def primitive_env_def split: option.splits)

lemma no_side_effect_double_r: "no_side_effect m double_r"
  by (auto simp: no_side_effect_def double_r_def split: option.splits jsval.splits jsnum.splits)

lemma no_side_effect_bigint_one: "no_side_effect m bigint_one"
  by (simp add: no_side_effect_def bigint_one_def)

lemma no_side_effect_if_r_above_100:
  assumes "no_side_effect m e1" and "no_side_effect m e2"
  shows "no_side_effect m (if_r_above_100 e1 e2)"
  using assms
  by (auto simp: no_side_effect_def if_r_above_100_def
      split: option.splits jsval.splits jsnum.splits)

lemma sample_compile_failure:
  "compile (parseExpr sample_engine)
     \<lparr>formulas_r = ''r +'', formulas_g = [], formulas_b = [], formulas_a = []\<rparr>
   = Inl ''SyntaxError''"
  by (simp add: compile_def parseExpr_sample sample_parseExpr_def formula_text_def)

lemma sample_compile_double:
  "compile (parseExpr sample_engine)
     \<lparr>formulas_r = ''r*2'', formulas_g = [], formulas_b = [], formulas_a = []\<rparr>
   = Inr (double_r, var_ref ''g'', var_ref ''b'', var_ref ''a'')"
  by (simp add: compile_def parseExpr_sample sample_parseExpr_def formula_text_def)

lemma sample_compile_cond_double:
  "compile (parseExpr sample_engine)
     \<lparr>formulas_r = ''r > 100 ? x : r*2'', formulas_g = [], formulas_b = [], formulas_a = []\<rparr>
   = Inr (if_r_above_100 (var_ref ''x'') double_r, var_ref ''g'', var_ref ''b'', var_ref ''a'')"
  by (simp add: compile_def parseExpr_sample sample_parseExpr_def formula_text_def)

lemma sample_compile_cond_bigint:
  "compile (parseExpr sample_engine)
     \<lparr>formulas_r = ''r > 100 ? x : 1n'', formulas_g = [], formulas_b = [], formulas_a = []\<rparr>
   = Inr (if_r_above_100 (var_ref ''x'') bigint_one, var_ref ''g'', var_ref ''b'', var_ref ''a'')"
  by (simp add: compile_def parseExpr_sample sample_parseExpr_def formula_text_def)

lemma sample_compile_assign_g:
  "compile (parseExpr sample_engine)
     \<lparr>formulas_r = ''(g = 99, x)'', formulas_g = [], formulas_b = [], formulas_a = []\<rparr>
   = Inr (assign_g_then_x, var_ref ''g'', var_ref ''b'', var_ref ''a'')"
  by (simp add: compile_def parseExpr_sample sample_parseExpr_def formula_text_def)

lemma sample_compile_replace_min:
  "compile (parseExpr sample_engine)
     \<lparr>formulas_r = ''(Math.min = function(){ return 7 }, 400)'', formulas_g = [],
      formulas_b = [], formulas_a = []\<rparr>
   = Inr (replace_min, var_ref ''g'', var_ref ''b'', var_ref ''a'')"
  by (simp add: compile_def parseExpr_sample sample_parseExpr_def formula_text_def)

lemma sample_compile_write_input:
  "compile (parseExpr sample_engine)
     \<lparr>formulas_r = ''(img.data[0] = 77, r)'', formulas_g = [], formulas_b = [], formulas_a = []\<rparr>
   = Inr (write_input, var_ref ''g'', var_ref ''b'', var_ref ''a'')"
  by (simp add: compile_def parseExpr_sample sample_parseExpr_def formula_text_def)

lemma sample_compile_counter:
  "compile (parseExpr sample_engine)
     \<lparr>formulas_r = ''globalThis.n = (globalThis.n || 0) + 1'',
      formulas_g = [], formulas_b = [], formulas_a = []\<rparr>
   = Inr (count_calls, var_ref ''g'', var_ref ''b'', var_ref ''a'')"
  by (simp add: compile_def parseExpr_sample sample_parseExpr_def formula_text_def)

lemma ToUint8Clamp_samples [simp]:
  "ToUint8Clamp (Finite 7) = 7" "ToUint8Clamp (Finite 10) = 10" "ToUint8Clamp (Finite 20) = 20"
  "ToUint8Clamp (Finite 30) = 30" "ToUint8Clamp (Finite 40) = 40" "ToUint8Clamp (Finite 50) = 50"
  "ToUint8Clamp (Finite 99) = 99" "ToUint8Clamp (Finite 100) = 100"
  "ToUint8Clamp (Finite 200) = 200" "ToUint8Clamp (Finite 255) = 255"
  using ToUint8Clamp_byte [of 7] ToUint8Clamp_byte [of 10] ToUint8Clamp_byte [of 20]
    ToUint8Clamp_byte [of 30] ToUint8Clamp_byte [of 40] ToUint8Clamp_byte [of 50]
    ToUint8Clamp_byte [of 99] ToUint8Clamp_byte [of 100] ToUint8Clamp_byte [of 200]
    ToUint8Clamp_byte [of 255]
  by simp_all

lemmas run_simps =
  ImageProcessor_applyFormulas_def finish_def Let_def
  apply_pixel_def compiledShader_def try_block_def params_def variable_def
  clamp_assign_def call_math_def builtin_call_def Let_def assign_def
  ToNumber_def ToNumber_primitive_def rdv_def rd_def
  var_ref_def double_r_def bigint_one_def if_r_above_100_def assign_g_then_x_def
  replace_min_def write_input_def count_calls_def ReferenceError_def

text \<open>
  The run of \<open>(g = 99, x)\<close> for red on one pixel: the expression throws, and the green
  byte of the output is 99.
\<close>

lemma run_assign_g:
  "ImageProcessor_applyFormulas sample_engine (sample_world [[200, 10, 20, 255]])
     \<lparr>ref_width = 1, ref_height = 1, ref_data = 0\<rparr>
     \<lparr>formulas_r = ''(g = 99, x)'', formulas_g = [], formulas_b = [], formulas_a = []\<rparr>
   = ((sample_world [[200, 10, 20, 255]])\<lparr>arrays := [[200, 10, 20, 255], [200, 99, 20, 255]]\<rparr>,
      Inr \<lparr>result_data = \<lparr>ref_width = 1, ref_height = 1, ref_data = 1\<rparr>,
           result_error = None\<rparr>)"
  by (simp add: sample_compile_assign_g run_simps
      apply_loop.simps [of _ _ _ 0] apply_loop.simps [of _ _ _ 4])

lemma run_cond_bigint:
  "ImageProcessor_applyFormulas sample_engine
     (sample_world [[200, 10, 20, 255, 50, 10, 20, 255]])
     \<lparr>ref_width = 2, ref_height = 1, ref_data = 0\<rparr>
     \<lparr>formulas_r = ''r > 100 ? x : 1n'', formulas_g = [], formulas_b = [], formulas_a = []\<rparr>
   = ((sample_world [[200, 10, 20, 255, 50, 10, 20, 255]])
        \<lparr>arrays := [[200, 10, 20, 255, 50, 10, 20, 255], [200, 10, 20, 255, 50, 10, 20, 255]]\<rparr>,
      Inr \<lparr>result_data = \<lparr>ref_width = 2, ref_height = 1, ref_data = 1\<rparr>,
           result_error = Some ''Cannot convert a BigInt value to a number''\<rparr>)"
  by (simp add: sample_compile_cond_bigint run_simps
      apply_loop.simps [of _ _ _ 0] apply_loop.simps [of _ _ _ 4])

lemma run_replace_min:
  "ImageProcessor_applyFormulas sample_engine (sample_world [[200, 10, 20, 255]])
     \<lparr>ref_width = 1, ref_height = 1, ref_data = 0\<rparr>
     \<lparr>formulas_r = ''(Math.min = function(){ return 7 }, 400)'', formulas_g = [],
      formulas_b = [], formulas_a = []\<rparr>
   = ((sample_world [[200, 10, 20, 255]])
        \<lparr>arrays := [[200, 10, 20, 255], [7, 7, 7, 7]],
         Math := (Math (sample_world [[200, 10, 20, 255]]))\<lparr>Math_min := Replaced (Object 1)\<rparr>\<rparr>,
      Inr \<lparr>result_data = \<lparr>ref_width = 1, ref_height = 1, ref_data = 1\<rparr>,
           result_error = None\<rparr>)"
  by (simp add: sample_compile_replace_min run_simps
      apply_loop.simps [of _ _ _ 0] apply_loop.simps [of _ _ _ 4])

lemma run_write_input:
  "ImageProcessor_applyFormulas sample_engine (sample_world [[10, 20, 30, 40]])
     \<lparr>ref_width = 1, ref_height = 1, ref_data = 0\<rparr>
     \<lparr>formulas_r = ''(img.data[0] = 77, r)'', formulas_g = [], formulas_b = [], formulas_a = []\<rparr>
   = ((sample_world [[10, 20, 30, 40]])\<lparr>arrays := [[77, 20, 30, 40], [10, 20, 30, 40]]\<rparr>,
      Inr \<lparr>result_data = \<lparr>ref_width = 1, ref_height = 1, ref_data = 1\<rparr>,
           result_error = None\<rparr>)"
  by (simp add: sample_compile_write_input run_simps
      apply_loop.simps [of _ _ _ 0] apply_loop.simps [of _ _ _ 4])

lemma try_assign_g:
  "pixel_try assign_g_then_x (var_ref ''g'') (var_ref ''b'') (var_ref ''a'')
     (sample_world [[200, 10, 20, 255]]) [200, 10, 20, 255] 0 = None"
  by (simp add: pixel_try_def run_simps)

lemma try_cond_bigint:
  "pixel_try (if_r_above_100 (var_ref ''x'') bigint_one) (var_ref ''g'') (var_ref ''b'')
     (var_ref ''a'') (sample_world [[200, 10, 20, 255, 50, 10, 20, 255]])
     [200, 10, 20, 255, 50, 10, 20, 255] 0 = None"
  by (simp add: pixel_try_def run_simps)

lemma out_replace_min:
  "chan 0 (pixel_out (compiledShader replace_min (var_ref ''g'') (var_ref ''b'') (var_ref ''a''))
             (sample_world [[200, 10, 20, 255]]) [200, 10, 20, 255] 0) = Number (Finite 400)"
  by (simp add: pixel_out_def pixel_call_def run_simps)




theorem applyFormulas_compile_failure_witness:
  "compile (parseExpr sample_engine)
     \<lparr>formulas_r = ''r +'', formulas_g = [], formulas_b = [], formulas_a = []\<rparr>
     = Inl ''SyntaxError''
   \<and> (\<exists>res. snd (ImageProcessor_applyFormulas sample_engine (sample_world [[10, 20, 30, 40]])
                  \<lparr>ref_width = 1, ref_height = 1, ref_data = 0\<rparr>
                  \<lparr>formulas_r = ''r +'', formulas_g = [], formulas_b = [], formulas_a = []\<rparr>)
              = Inr res
          \<and> result_error res = Some ''SyntaxError''
          \<and> arrays (fst (ImageProcessor_applyFormulas sample_engine
                      (sample_world [[10, 20, 30, 40]])
                      \<lparr>ref_width = 1, ref_height = 1, ref_data = 0\<rparr>
                      \<lparr>formulas_r = ''r +'', formulas_g = [], formulas_b = [],
                       formulas_a = []\<rparr>))
              ! ref_data (result_data res) = [10, 20, 30, 40]
          \<and> ref_width (result_data res) = 1
          \<and> ref_height (result_data res) = 1)"
  using sample_compile_failure
    applyFormulas_compile_failure [OF sample_compile_failure,
      of "sample_world [[10, 20, 30, 40]]" "\<lparr>ref_width = 1, ref_height = 1, ref_data = 0\<rparr>"]
  by simp

lemma sample_without_side_effects:
  "without_side_effects sample_engine m
     \<lparr>formulas_r = ''r*2'', formulas_g = [], formulas_b = [], formulas_a = []\<rparr>"
  by (simp add: without_side_effects_def sample_compile_double no_side_effect_double_r
      no_side_effect_var_ref)


lemma try_cond_double_0:
  "pixel_try (if_r_above_100 (var_ref ''x'') double_r) (var_ref ''g'') (var_ref ''b'')
     (var_ref ''a'') (sample_world [[200, 10, 20, 255, 50, 10, 20, 255]])
     [200, 10, 20, 255, 50, 10, 20, 255] 0 = None"
  by (simp add: pixel_try_def run_simps)

lemma try_cond_double_4:
  "pixel_try (if_r_above_100 (var_ref ''x'') double_r) (var_ref ''g'') (var_ref ''b'')
     (var_ref ''a'') (sample_world [[200, 10, 20, 255, 50, 10, 20, 255]])
     [200, 10, 20, 255, 50, 10, 20, 255] 4
   = Some (Number (Finite 100), Number (Finite 10), Number (Finite 20), Number (Finite 255))"
  by (simp add: pixel_try_def run_simps)

lemma less_2_cases: "4 * k < (8::nat) \<Longrightarrow> k = 0 \<or> k = 1"
  by arith


lemma out_double:
  "chan 0 (pixel_out (compiledShader double_r (var_ref ''g'') (var_ref ''b'') (var_ref ''a''))
             (sample_world [[200, 10, 20, 255]]) [200, 10, 20, 255] (4 * 0)) = Number (Finite 400)"
  by (simp add: pixel_out_def pixel_call_def run_simps)

lemma run_double:
  "ImageProcessor_applyFormulas sample_engine (sample_world [[200, 10, 20, 255]])
     \<lparr>ref_width = 1, ref_height = 1, ref_data = 0\<rparr>
     \<lparr>formulas_r = ''r*2'', formulas_g = [], formulas_b = [], formulas_a = []\<rparr>
   = ((sample_world [[200, 10, 20, 255]])\<lparr>arrays := [[200, 10, 20, 255], [255, 10, 20, 255]]\<rparr>,
      Inr \<lparr>result_data = \<lparr>ref_width = 1, ref_height = 1, ref_data = 1\<rparr>,
           result_error = None\<rparr>)"
  by (simp add: sample_compile_double run_simps
      apply_loop.simps [of _ _ _ 0] apply_loop.simps [of _ _ _ 4])


subsection \<open>Purity of the compiled transform\<close>

text \<open>
  An expression has no outside effect, for a \<open>Math\<close> object \<open>m\<close>, when its evaluation with
  variables that hold primitive values, in any state whose \<open>Math\<close> object is \<open>m\<close>, leaves
  the state as it is, leaves primitive values in the variables, yields a primitive value
  if it yields one, and has the same outcome and the same effect on the variables in every
  state whose \<open>Math\<close> object is \<open>m\<close>: it reaches the variables in scope and the \<open>Math\<close>
  object, and nothing else. (It may assign the parameters of the function.)
\<close>

definition no_outside_effect :: "math_ns \<Rightarrow> 'x gexpr \<Rightarrow> bool" where
  "no_outside_effect m e =
     (\<forall>env w. primitive_env env \<and> Math w = m \<longrightarrow>
        snd (snd (e env w)) = w
        \<and> primitive_env (fst (snd (e env w)))
        \<and> (\<forall>v. fst (e env w) = Value v \<longrightarrow> primitive v)
        \<and> (\<forall>w'. Math w' = m \<longrightarrow>
               fst (e env w') = fst (e env w) \<and> fst (snd (e env w')) = fst (snd (e env w))))"

lemma no_outside_effectD:
  assumes "no_outside_effect m e" and "primitive_env env" and "Math w = m" and "Math w' = m"
  obtains out env' where "e env w = (out, env', w)" and "e env w' = (out, env', w')"
    and "primitive_env env'" and "\<forall>v. out = Value v \<longrightarrow> primitive v"
proof -
  have s: "snd (snd (e env w)) = w" and s': "snd (snd (e env w')) = w'"
    and c: "primitive_env (fst (snd (e env w)))"
    and p: "\<forall>v. fst (e env w) = Value v \<longrightarrow> primitive v"
    and f: "fst (e env w') = fst (e env w)" and g: "fst (snd (e env w')) = fst (snd (e env w))"
    using assms unfolding no_outside_effect_def by blast+
  have "e env w = (fst (e env w), fst (snd (e env w)), snd (snd (e env w)))" by simp
  then have a: "e env w = (fst (e env w), fst (snd (e env w)), w)" by (simp only: s)
  have "e env w' = (fst (e env w'), fst (snd (e env w')), snd (snd (e env w')))" by simp
  then have b: "e env w' = (fst (e env w), fst (snd (e env w)), w')" by (simp only: s' f g)
  show ?thesis using a b c p by (rule that)
qed

lemma try_block_no_outside_effect:
  assumes er: "no_outside_effect m er" and eg: "no_outside_effect m eg"
    and eb: "no_outside_effect m eb" and ea: "no_outside_effect m ea"
    and env: "primitive_env env0" and w: "Math w = m" and w': "Math w' = m"
  shows "\<exists>res env'. try_block er eg eb ea env0 w = (res, env', w)
                   \<and> try_block er eg eb ea env0 w' = (res, env', w')"
proof -
  from er env w w' obtain o1 env1 where
    r: "er env0 w = (o1, env1, w)" "er env0 w' = (o1, env1, w')"
    and e1: "primitive_env env1" and p1: "\<forall>v. o1 = Value v \<longrightarrow> primitive v"
    by (rule no_outside_effectD)
  show ?thesis
  proof (cases o1)
    case (Throws t)
    then show ?thesis using r by (simp add: try_block_def)
  next
    case (Value nr)
    note v1 = Value
    have env1': "primitive_env (env1(''nr'' \<mapsto> nr))"
      using e1 p1 Value by (simp add: primitive_env_update)
    from eg env1' w w' obtain o2 env2 where
      g: "eg (env1(''nr'' \<mapsto> nr)) w = (o2, env2, w)" "eg (env1(''nr'' \<mapsto> nr)) w' = (o2, env2, w')"
      and e2: "primitive_env env2" and p2: "\<forall>v. o2 = Value v \<longrightarrow> primitive v"
      by (rule no_outside_effectD)
    show ?thesis
    proof (cases o2)
      case (Throws t)
      then show ?thesis using r g v1 by (simp add: try_block_def)
    next
      case (Value ng)
      note v2 = Value
      have env2': "primitive_env (env2(''ng'' \<mapsto> ng))"
        using e2 p2 Value by (simp add: primitive_env_update)
      from eb env2' w w' obtain o3 env3 where
        b: "eb (env2(''ng'' \<mapsto> ng)) w = (o3, env3, w)" "eb (env2(''ng'' \<mapsto> ng)) w' = (o3, env3, w')"
        and e3: "primitive_env env3" and p3: "\<forall>v. o3 = Value v \<longrightarrow> primitive v"
        by (rule no_outside_effectD)
      show ?thesis
      proof (cases o3)
        case (Throws t)
        then show ?thesis using r g b v1 v2 by (simp add: try_block_def)
      next
        case (Value nb)
        note v3 = Value
        have env3': "primitive_env (env3(''nb'' \<mapsto> nb))"
          using e3 p3 Value by (simp add: primitive_env_update)
        from ea env3' w w' obtain o4 env4 where
          a: "ea (env3(''nb'' \<mapsto> nb)) w = (o4, env4, w)"
            "ea (env3(''nb'' \<mapsto> nb)) w' = (o4, env4, w')"
          by (rule no_outside_effectD)
        show ?thesis
          using r g b a v1 v2 v3 by (cases o4) (simp_all add: try_block_def)
      qed
    qed
  qed
qed



lemma no_outside_effect_var_ref: "x \<noteq> ''Math'' \<Longrightarrow> no_outside_effect m (var_ref x)"
  by (auto simp: no_outside_effect_def var_ref_def primitive_env_def split: option.splits)

lemma no_outside_effect_double_r: "no_outside_effect m double_r"
  by (auto simp: no_outside_effect_def double_r_def split: option.splits jsval.splits jsnum.splits)


end
